theory Spec2Isabelle
  imports Main
begin

section \<open>The history plugin: data model\<close>

text \<open>
  A shallow embedding of \<^verbatim>\<open>src/models/plugins/history.plugin.ts\<close>. Plain JS values are
  a datatype; a JS object is an association list in insertion order (its keys are
  distinct). Object identities (\<^verbatim>\<open>ObjectId\<close>, \<^verbatim>\<open>Connection\<close>) are natural numbers.
\<close>

type_synonym objectid = nat
type_synonym connection = nat

datatype jsval =
    JUndefined
  | JNull
  | JBool bool
  | JNum int
  | JStr string
  | JDate nat
  | JId objectid
  | JObj "(string \<times> jsval) list"

type_synonym obj = "(string \<times> jsval) list"

text \<open>\<^verbatim>\<open>action: 'create' | 'update' | 'softDelete' | 'hardDelete' | 'restore'\<close>\<close>

datatype action = Create | Update | SoftDelete | HardDelete | Restore

text \<open>\<^verbatim>\<open>IHistoryDocument\<close>: optional fields are options.\<close>

record history_entry =
  originalId :: objectid
  changes :: obj
  snapshot :: "obj option"
  modelName :: string
  action :: action
  modifiedBy :: "objectid option"

text \<open>
  A \<^verbatim>\<open>Model<IHistoryDocument>\<close> instance: \<open>model_ref\<close> is the identity of the object that
  \<^verbatim>\<open>connection.model(...)\<close> constructed, \<open>model_db\<close> the connection it is bound to.
\<close>

record model =
  model_ref :: nat
  model_db :: connection

text \<open>The error a rejected \<^verbatim>\<open>save()\<close> of the history store raises, with the store's message.\<close>

datatype error = StorageError string

text \<open>
  A live document of the host layer: its \<^verbatim>\<open>_id\<close>, the connection of its model
  (\<^verbatim>\<open>doc.constructor.db\<close>), the \<^verbatim>\<open>isNew\<close> flag, its field values other than \<^verbatim>\<open>_id\<close>, and
  the paths its state tracker reports as modified (\<^verbatim>\<open>modifiedPaths()\<close>).
\<close>

record document =
  doc_id :: objectid
  db :: connection
  isNew :: bool
  doc_fields :: obj
  modifiedPaths :: "string list"

text \<open>
  A query the query hooks run on: the connection of \<^verbatim>\<open>this.model\<close>, the criteria of
  \<^verbatim>\<open>this.getQuery()\<close> as a predicate on a stored entity's plain state, the patch of
  \<^verbatim>\<open>this.getUpdate()\<close>, and the \<^verbatim>\<open>sort\<close> option of the query, if it has one, as the key
  by which the host orders the matches (ascending; a descending sort negates the key).
\<close>

record query =
  q_db :: connection
  getQuery :: "obj \<Rightarrow> bool"
  getUpdate :: obj
  q_sort :: "(obj \<Rightarrow> int) option"

text \<open>
  The state the plugin runs in:
  \<^item> \<open>models\<close>: the static map of \<^verbatim>\<open>HistoryModelSingleton\<close>;
  \<^item> \<open>next_ref\<close>: the identity the next constructed model object gets;
  \<^item> \<open>async_storage\<close>: what \<^verbatim>\<open>ASYNC_STORAGE.get\<close> reads (the ambient context of
    \<^verbatim>\<open>@nodesandbox/async-storage\<close>, which has no value for a key that was not bound);
  \<^item> \<open>history\<close>: the history entries persisted so far, oldest first, each with the model
    that wrote it;
  \<^item> \<open>writes\<close> and \<open>write_fault\<close>: the number of writes the history store was asked for,
    and the error (if any) with which it rejects the write of a given number;
  \<^item> \<open>collection\<close>: the persisted entities, by \<^verbatim>\<open>_id\<close>, in the order queries fetch them.
\<close>

record world =
  models :: "connection \<rightharpoonup> model"
  next_ref :: nat
  async_storage :: "string \<rightharpoonup> objectid"
  history :: "(model \<times> history_entry) list"
  writes :: nat
  write_fault :: "nat \<Rightarrow> error option"
  collection :: "(objectid \<times> obj) list"

section \<open>Plain objects\<close>

text \<open>\<^verbatim>\<open>acc[path] = v\<close>: an existing key keeps its place, a new key goes last.\<close>

fun set_key :: "obj \<Rightarrow> string \<Rightarrow> jsval \<Rightarrow> obj" where
  "set_key [] k v = [(k, v)]"
| "set_key ((k', v') # rest) k v =
     (if k' = k then (k, v) # rest else (k', v') # set_key rest k v)"

text \<open>\<^verbatim>\<open>{ ...a, ...b }\<close>: the keys of \<open>b\<close> are assigned onto a copy of \<open>a\<close>, in order.\<close>

definition spread :: "obj \<Rightarrow> obj \<Rightarrow> obj" where
  "spread a b = fold (\<lambda>(k, v) acc. set_key acc k v) b a"

text \<open>A well-formed JS object has no key twice.\<close>

definition wf_obj :: "obj \<Rightarrow> bool" where
  "wf_obj a = distinct (map fst a)"

section \<open>The host layer's document interface\<close>

text \<open>
  Modelled from the spec: the entity and storage layer the plugin is attached to is not
  part of the source (``entity exposes: stable identifier, full-state read, set of
  currently-modified field paths, is-newly-created flag, owning connection handle, ability
  to persist itself''; ``storage layer exposes: query-by-criteria read (single and
  multi-match)''). The definitions of this section give that interface a concrete reading.
\<close>

text \<open>\<^verbatim>\<open>doc.toObject()\<close>: the full plain state, \<^verbatim>\<open>_id\<close> first.\<close>

definition toObject :: "document \<Rightarrow> obj" where
  "toObject d = (''_id'', JId (doc_id d)) # doc_fields d"

fun split_on :: "char \<Rightarrow> string \<Rightarrow> string list" where
  "split_on c [] = [[]]"
| "split_on c (x # xs) =
     (if x = c then [] # split_on c xs
      else (case split_on c xs of [] \<Rightarrow> [[x]] | s # ss \<Rightarrow> (x # s) # ss))"

fun dig :: "jsval \<Rightarrow> string list \<Rightarrow> jsval" where
  "dig v [] = v"
| "dig (JObj a) (k # ks) = (case map_of a k of None \<Rightarrow> JUndefined | Some v \<Rightarrow> dig v ks)"
| "dig _ (k # ks) = JUndefined"

text \<open>\<^verbatim>\<open>doc.get(path)\<close>: the value at a dotted path, \<^verbatim>\<open>undefined\<close> where there is none.\<close>

definition get :: "document \<Rightarrow> string \<Rightarrow> jsval" where
  "get d path = dig (JObj (toObject d)) (split_on CHR ''.'' path)"

text \<open>
  \<^verbatim>\<open>doc[k] = v\<close> on a schema path: the value is stored, and the tracker reports the path as
  modified when the value changed.
\<close>

definition set_path :: "document \<Rightarrow> string \<Rightarrow> jsval \<Rightarrow> document" where
  "set_path d k v =
     d\<lparr>doc_fields := set_key (doc_fields d) k v,
       modifiedPaths :=
         (if get d k = v \<or> k \<in> set (modifiedPaths d) then modifiedPaths d
          else modifiedPaths d @ [k])\<rparr>"

text \<open>A stored entity read back by a query: not new, nothing modified.\<close>

definition hydrate :: "connection \<Rightarrow> objectid \<times> obj \<Rightarrow> document" where
  "hydrate c s = \<lparr>doc_id = fst s, db = c, isNew = False, doc_fields = snd s, modifiedPaths = []\<rparr>"

definition matches :: "query \<Rightarrow> objectid \<times> obj \<Rightarrow> bool" where
  "matches q s = getQuery q (toObject (hydrate (q_db q) s))"

text \<open>\<^verbatim>\<open>this.model.find(this.getQuery())\<close>: every match, in the collection's order.\<close>

definition find_docs :: "query \<Rightarrow> world \<Rightarrow> document list" where
  "find_docs q w = map (hydrate (q_db q)) (filter (matches q) (collection w))"

text \<open>
  \<^verbatim>\<open>this.model.findOne(this.getQuery())\<close>: a query of its own with the criteria alone,
  so the first match in the collection's order, or \<^verbatim>\<open>null\<close>.
\<close>

definition findOne :: "query \<Rightarrow> world \<Rightarrow> document option" where
  "findOne q w = (case find_docs q w of [] \<Rightarrow> None | d # _ \<Rightarrow> Some d)"

section \<open>The writer registry\<close>

text \<open>
  Modelled from the spec: \<^verbatim>\<open>connection.model('History', historySchema)\<close> is the host's; it
  ``constructs one [writer] bound to that connection's history store'', a new model object.
\<close>

definition connection_model :: "connection \<Rightarrow> world \<Rightarrow> model \<times> world" where
  "connection_model c w =
     (\<lparr>model_ref = next_ref w, model_db = c\<rparr>, w\<lparr>next_ref := Suc (next_ref w)\<rparr>)"

text \<open>
  \<^verbatim>\<open>HistoryModelSingleton.getModel\<close>. The final \<^verbatim>\<open>this.models.get(connection)!\<close> is \<open>the\<close>:
  the key is present there.
\<close>

definition getModel :: "connection \<Rightarrow> world \<Rightarrow> model \<times> world" where
  "getModel c w =
     (let w' = (if models w c = None
                then (let (m, w1) = connection_model c w
                      in w1\<lparr>models := (models w1)(c \<mapsto> m)\<rparr>)
                else w)
      in (the (models w' c), w'))"

section \<open>Writing an entry\<close>

text \<open>
  Modelled from the spec: \<^verbatim>\<open>new HistoryModel({...}).save()\<close> is the host's; the store
  either rejects the write with its error (``store unavailable, constraint violation'') or
  appends the entry.
\<close>

definition model_save :: "model \<Rightarrow> history_entry \<Rightarrow> world \<Rightarrow> (error + unit) \<times> world" where
  "model_save m e w =
     (case write_fault w (writes w) of
        Some err \<Rightarrow> (Inl err, w\<lparr>writes := Suc (writes w)\<rparr>)
      | None \<Rightarrow> (Inr (), w\<lparr>history := history w @ [(m, e)], writes := Suc (writes w)\<rparr>))"

text \<open>\<^verbatim>\<open>createHistoryEntry\<close>; \<open>mn\<close> is \<^verbatim>\<open>options.modelName\<close>.\<close>

definition createHistoryEntry ::
  "string \<Rightarrow> document \<Rightarrow> action \<Rightarrow> obj \<Rightarrow> obj option \<Rightarrow> world \<Rightarrow> (error + unit) \<times> world" where
  "createHistoryEntry mn doc act chg snap w =
     (let currentUserId = async_storage w ''currentUserId'';
          connection = db doc;
          (HistoryModel, w1) = getModel connection w
      in model_save HistoryModel
           \<lparr>originalId = doc_id doc, changes = chg, snapshot = snap, modelName = mn,
            action = act, modifiedBy = currentUserId\<rparr> w1)"

text \<open>
  Modelled from the spec: the host's hook point ``can run interception logic before the
  mutation is applied or before removal, and can abort the mutation if the hook fails''.
  The operation runs only when the hook completed; the hook's error is the operation's.
\<close>

definition with_pre ::
  "(world \<Rightarrow> (error + unit) \<times> world) \<Rightarrow> (world \<Rightarrow> (error + 'a) \<times> world) \<Rightarrow>
   world \<Rightarrow> (error + 'a) \<times> world" where
  "with_pre hook primary w =
     (case hook w of
        (Inl err, w') \<Rightarrow> (Inl err, w')
      | (Inr _, w') \<Rightarrow> primary w')"

section \<open>Instance save\<close>

text \<open>\<^verbatim>\<open>schema.pre('save')\<close>\<close>

definition pre_save :: "string \<Rightarrow> document \<Rightarrow> world \<Rightarrow> (error + unit) \<times> world" where
  "pre_save mn this w =
     (let act = (if isNew this then Create else Update);
          chg = (if isNew this then toObject this
                 else fold (\<lambda>path acc. set_key acc path (get this path)) (modifiedPaths this) []);
          snap = toObject this
      in createHistoryEntry mn this act chg (Some snap) w)"

text \<open>
  Modelled from the spec: the host's own save (``ability to persist itself''), which the
  plugin does not define. A new document is inserted, a known one has its stored state
  replaced; afterwards the document is neither new nor modified.
\<close>

definition primary_save :: "document \<Rightarrow> world \<Rightarrow> (error + document) \<times> world" where
  "primary_save d w =
     (Inr (d\<lparr>isNew := False, modifiedPaths := []\<rparr>),
      w\<lparr>collection :=
          (if isNew d then collection w @ [(doc_id d, doc_fields d)]
           else map (\<lambda>s. if fst s = doc_id d then (doc_id d, doc_fields d) else s) (collection w))\<rparr>)"

text \<open>\<^verbatim>\<open>doc.save()\<close> on a schema with the plugin.\<close>

definition save :: "string \<Rightarrow> document \<Rightarrow> world \<Rightarrow> (error + document) \<times> world" where
  "save mn d = with_pre (pre_save mn d) (primary_save d)"

section \<open>Soft delete and restore\<close>

text \<open>
  \<^verbatim>\<open>schema.methods.softDelete\<close>; \<open>now\<close> is the clock value \<^verbatim>\<open>new Date()\<close> reads. The
  document returned is \<^verbatim>\<open>this\<close> as the method leaves it.
\<close>

definition softDelete :: "string \<Rightarrow> nat \<Rightarrow> document \<Rightarrow> world \<Rightarrow> (error + document) \<times> world" where
  "softDelete mn now this0 w =
     (let this1 = set_path this0 ''deletedAt'' (JDate now)
      in case save mn this1 w of
           (Inl err, w1) \<Rightarrow> (Inl err, w1)
         | (Inr this2, w1) \<Rightarrow>
             (let snap = toObject this2
              in case createHistoryEntry mn this2 SoftDelete
                        [(''deletedAt'', get this2 ''deletedAt'')] (Some snap) w1 of
                   (Inl err, w2) \<Rightarrow> (Inl err, w2)
                 | (Inr _, w2) \<Rightarrow> (Inr this2, w2)))"

text \<open>\<^verbatim>\<open>schema.methods.restore\<close>\<close>

definition restore :: "string \<Rightarrow> document \<Rightarrow> world \<Rightarrow> (error + document) \<times> world" where
  "restore mn this0 w =
     (let this1 = set_path this0 ''deletedAt'' JNull
      in case save mn this1 w of
           (Inl err, w1) \<Rightarrow> (Inl err, w1)
         | (Inr this2, w1) \<Rightarrow>
             (let snap = toObject this2
              in case createHistoryEntry mn this2 Restore
                        [(''deletedAt'', JNull)] (Some snap) w1 of
                   (Inl err, w2) \<Rightarrow> (Inl err, w2)
                 | (Inr _, w2) \<Rightarrow> (Inr this2, w2)))"

section \<open>Hard delete\<close>

text \<open>\<^verbatim>\<open>schema.pre('deleteOne', { document: true, query: false })\<close>\<close>

definition pre_deleteOne :: "string \<Rightarrow> document \<Rightarrow> world \<Rightarrow> (error + unit) \<times> world" where
  "pre_deleteOne mn this w =
     (let snap = toObject this
      in createHistoryEntry mn this HardDelete [] (Some snap) w)"

text \<open>Modelled from the spec: the host's removal of one document, by \<^verbatim>\<open>_id\<close>.\<close>

definition primary_deleteOne :: "document \<Rightarrow> world \<Rightarrow> (error + unit) \<times> world" where
  "primary_deleteOne d w =
     (Inr (), w\<lparr>collection := filter (\<lambda>s. fst s \<noteq> doc_id d) (collection w)\<rparr>)"

definition deleteOne :: "string \<Rightarrow> document \<Rightarrow> world \<Rightarrow> (error + unit) \<times> world" where
  "deleteOne mn d = with_pre (pre_deleteOne mn d) (primary_deleteOne d)"

text \<open>\<^verbatim>\<open>schema.pre('findOneAndDelete')\<close>\<close>

definition pre_findOneAndDelete :: "string \<Rightarrow> query \<Rightarrow> world \<Rightarrow> (error + unit) \<times> world" where
  "pre_findOneAndDelete mn this w =
     (case findOne this w of
        Some doc \<Rightarrow>
          (let snap = toObject doc
           in createHistoryEntry mn doc HardDelete [] (Some snap) w)
      | None \<Rightarrow> (Inr (), w))"

text \<open>The first occurrence of \<open>x\<close> in a list is replaced by \<open>y\<close>.\<close>

fun replace_first :: "'a \<Rightarrow> 'a \<Rightarrow> 'a list \<Rightarrow> 'a list" where
  "replace_first x y [] = []"
| "replace_first x y (z # zs) = (if z = x then y # zs else z # replace_first x y zs)"

text \<open>
  Modelled from the spec: the host's query operations. A single-entity operation acts on
  the first match of the criteria in the order of the query: the order of the collection,
  or, when the query has a \<^verbatim>\<open>sort\<close> option, the matches sorted by its key. A bulk
  operation acts on every match. A patch is applied as plain field values.
\<close>

definition host_pick :: "query \<Rightarrow> world \<Rightarrow> (objectid \<times> obj) option" where
  "host_pick q w =
     (let ms = filter (matches q) (collection w);
          ordered = (case q_sort q of
                       None \<Rightarrow> ms
                     | Some key \<Rightarrow> sort_key (\<lambda>s. key (toObject (hydrate (q_db q) s))) ms)
      in case ordered of [] \<Rightarrow> None | s # _ \<Rightarrow> Some s)"

definition primary_findOneAndDelete :: "query \<Rightarrow> world \<Rightarrow> (error + unit) \<times> world" where
  "primary_findOneAndDelete q w =
     (Inr (), w\<lparr>collection :=
                 (case host_pick q w of
                    None \<Rightarrow> collection w
                  | Some s \<Rightarrow> remove1 s (collection w))\<rparr>)"

definition apply_patch :: "obj \<Rightarrow> objectid \<times> obj \<Rightarrow> objectid \<times> obj" where
  "apply_patch patch s = (fst s, spread (snd s) patch)"

definition primary_findOneAndUpdate :: "query \<Rightarrow> world \<Rightarrow> (error + unit) \<times> world" where
  "primary_findOneAndUpdate q w =
     (Inr (), w\<lparr>collection :=
                 (case host_pick q w of
                    None \<Rightarrow> collection w
                  | Some s \<Rightarrow> replace_first s (apply_patch (getUpdate q) s) (collection w))\<rparr>)"

definition primary_deleteMany :: "query \<Rightarrow> world \<Rightarrow> (error + unit) \<times> world" where
  "primary_deleteMany q w =
     (Inr (), w\<lparr>collection := filter (\<lambda>s. \<not> matches q s) (collection w)\<rparr>)"

definition primary_updateMany :: "query \<Rightarrow> world \<Rightarrow> (error + unit) \<times> world" where
  "primary_updateMany q w =
     (Inr (), w\<lparr>collection :=
                 map (\<lambda>s. if matches q s then apply_patch (getUpdate q) s else s) (collection w)\<rparr>)"

definition findOneAndDelete :: "string \<Rightarrow> query \<Rightarrow> world \<Rightarrow> (error + unit) \<times> world" where
  "findOneAndDelete mn q = with_pre (pre_findOneAndDelete mn q) (primary_findOneAndDelete q)"

section \<open>Update by criteria\<close>

text \<open>\<^verbatim>\<open>schema.pre('findOneAndUpdate')\<close>\<close>

definition pre_findOneAndUpdate :: "string \<Rightarrow> query \<Rightarrow> world \<Rightarrow> (error + unit) \<times> world" where
  "pre_findOneAndUpdate mn this w =
     (let doc = findOne this w;
          updates = getUpdate this
      in case doc of
           Some d \<Rightarrow>
             (let snap = spread (toObject d) updates
              in createHistoryEntry mn d Update updates (Some snap) w)
         | None \<Rightarrow> (Inr (), w))"

definition findOneAndUpdate :: "string \<Rightarrow> query \<Rightarrow> world \<Rightarrow> (error + unit) \<times> world" where
  "findOneAndUpdate mn q = with_pre (pre_findOneAndUpdate mn q) (primary_findOneAndUpdate q)"

section \<open>Bulk pathways\<close>

text \<open>
  \<^verbatim>\<open>for (const doc of docs) { ...; await body(doc) }\<close>: one document after the other; the
  first error ends the loop.
\<close>

fun for_each ::
  "('a \<Rightarrow> world \<Rightarrow> (error + unit) \<times> world) \<Rightarrow> 'a list \<Rightarrow> world \<Rightarrow> (error + unit) \<times> world" where
  "for_each body [] w = (Inr (), w)"
| "for_each body (x # xs) w =
     (case body x w of
        (Inl err, w') \<Rightarrow> (Inl err, w')
      | (Inr _, w') \<Rightarrow> for_each body xs w')"

text \<open>\<^verbatim>\<open>schema.pre('deleteMany')\<close>\<close>

definition pre_deleteMany :: "string \<Rightarrow> query \<Rightarrow> world \<Rightarrow> (error + unit) \<times> world" where
  "pre_deleteMany mn this w =
     (let docs = find_docs this w
      in for_each (\<lambda>doc. createHistoryEntry mn doc HardDelete [] (Some (toObject doc))) docs w)"

text \<open>\<^verbatim>\<open>schema.pre('updateMany')\<close>\<close>

definition pre_updateMany :: "string \<Rightarrow> query \<Rightarrow> world \<Rightarrow> (error + unit) \<times> world" where
  "pre_updateMany mn this w =
     (let updates = getUpdate this;
          docs = find_docs this w
      in for_each (\<lambda>doc. createHistoryEntry mn doc Update updates
                           (Some (spread (toObject doc) updates))) docs w)"

definition deleteMany :: "string \<Rightarrow> query \<Rightarrow> world \<Rightarrow> (error + unit) \<times> world" where
  "deleteMany mn q = with_pre (pre_deleteMany mn q) (primary_deleteMany q)"

definition updateMany :: "string \<Rightarrow> query \<Rightarrow> world \<Rightarrow> (error + unit) \<times> world" where
  "updateMany mn q = with_pre (pre_updateMany mn q) (primary_updateMany q)"

section \<open>Specification vocabulary\<close>

text \<open>The entry a pathway hands to the writer, as \<^verbatim>\<open>createHistoryEntry\<close> builds it.\<close>

definition entry ::
  "string \<Rightarrow> world \<Rightarrow> document \<Rightarrow> action \<Rightarrow> obj \<Rightarrow> obj option \<Rightarrow> history_entry" where
  "entry mn w doc act chg snap =
     \<lparr>originalId = doc_id doc, changes = chg, snapshot = snap, modelName = mn,
      action = act, modifiedBy = async_storage w ''currentUserId''\<rparr>"

text \<open>The entries a run added to the history: what is there beyond the \<open>n\<close> that were.\<close>

definition written :: "world \<Rightarrow> world \<Rightarrow> history_entry list" where
  "written w w' = map snd (drop (length (history w)) (history w'))"

text \<open>
  The registry is in order when every cached model was constructed before
  (\<open>model_ref\<close> below \<open>next_ref\<close>) and no model object is cached for two connections.
\<close>

definition registry_ok :: "world \<Rightarrow> bool" where
  "registry_ok w =
     ((\<forall>c m. models w c = Some m \<longrightarrow> model_ref m < next_ref w) \<and>
      (\<forall>c c' m m'. models w c = Some m \<longrightarrow> models w c' = Some m' \<longrightarrow>
                    model_ref m = model_ref m' \<longrightarrow> c = c'))"

text \<open>The first \<open>n\<close> writes the history store is asked for from now on all succeed.\<close>

definition writes_ok :: "world \<Rightarrow> nat \<Rightarrow> bool" where
  "writes_ok w n = (\<forall>j<n. write_fault w (writes w + j) = None)"

text \<open>The model an entry for connection \<open>c\<close> is written through.\<close>

definition writer :: "connection \<Rightarrow> world \<Rightarrow> model" where
  "writer c w = fst (getModel c w)"

text \<open>A world with nothing in it, where every write of the history store succeeds.\<close>

definition empty_world :: world where
  "empty_world =
     \<lparr>models = Map.empty, next_ref = 0, async_storage = Map.empty, history = [],
      writes = 0, write_fault = (\<lambda>_. None), collection = []\<rparr>"

text \<open>Resolving the writers of a list of connections, one after the other.\<close>

definition resolve_all :: "connection list \<Rightarrow> world \<Rightarrow> world" where
  "resolve_all cs w = fold (\<lambda>c w. snd (getModel c w)) cs w"

text \<open>The entries the two kinds of query pathway write for a document.\<close>

definition hardDelete_entry :: "string \<Rightarrow> world \<Rightarrow> document \<Rightarrow> history_entry" where
  "hardDelete_entry mn w d = entry mn w d HardDelete [] (Some (toObject d))"

definition update_entry :: "string \<Rightarrow> world \<Rightarrow> obj \<Rightarrow> document \<Rightarrow> history_entry" where
  "update_entry mn w upd d = entry mn w d Update upd (Some (spread (toObject d) upd))"

section \<open>Sample entities\<close>

text \<open>A new widget, and the same widget, stored, after its name was changed.\<close>

definition widget :: document where
  "widget = \<lparr>doc_id = 1, db = 0, isNew = True, doc_fields = [(''name'', JStr ''a'')],
             modifiedPaths = [''name'']\<rparr>"

definition widget_renamed :: document where
  "widget_renamed = \<lparr>doc_id = 1, db = 0, isNew = False,
     doc_fields = [(''name'', JStr ''b''), (''size'', JNum 2)], modifiedPaths = [''name'']\<rparr>"

text \<open>
  Three stored entities, two of kind x; a world holding them; that world with the history
  store rejecting the write of number \<open>n\<close>; and a query by kind carrying a patch.
\<close>

definition shelf :: "(objectid \<times> obj) list" where
  "shelf =
     [(1, [(''name'', JStr ''a''), (''kind'', JStr ''x'')]),
      (2, [(''name'', JStr ''b''), (''kind'', JStr ''y'')]),
      (3, [(''name'', JStr ''c''), (''kind'', JStr ''x'')])]"

definition stocked :: world where
  "stocked = empty_world\<lparr>collection := shelf\<rparr>"

definition failing_at :: "nat \<Rightarrow> world" where
  "failing_at n =
     stocked\<lparr>write_fault := (\<lambda>j. if j = n then Some (StorageError ''history store down'') else None)\<rparr>"

definition by_kind :: "string \<Rightarrow> query" where
  "by_kind k =
     \<lparr>q_db = 0, getQuery = (\<lambda>a. map_of a ''kind'' = Some (JStr k)),
      getUpdate = [(''name'', JStr ''z'')], q_sort = None\<rparr>"

text \<open>The same query with the option \<^verbatim>\<open>{ sort: { _id: -1 } }\<close>.\<close>

definition newest_first :: "string \<Rightarrow> query" where
  "newest_first k =
     (by_kind k)\<lparr>q_sort :=
        Some (\<lambda>a. case map_of a ''_id'' of Some (JId n) \<Rightarrow> - int n | _ \<Rightarrow> 0)\<rparr>"

text \<open>The first entity of the shelf, as a query reads it.\<close>

definition stored_widget :: document where
  "stored_widget = hydrate 0 (shelf ! 0)"

section \<open>All pathways\<close>

text \<open>The eight mutation pathways the plugin hooks into, with their arguments.\<close>

datatype pathway =
    PSave document
  | PSoftDelete nat document
  | PRestore document
  | PDeleteOne document
  | PFindOneAndDelete query
  | PFindOneAndUpdate query
  | PDeleteMany query
  | PUpdateMany query

text \<open>The error an operation ended with, if any, whatever it returns otherwise.\<close>

definition failure :: "(error + 'a) \<times> world \<Rightarrow> error option \<times> world" where
  "failure r = (case fst r of Inl err \<Rightarrow> Some err | Inr _ \<Rightarrow> None, snd r)"

fun run :: "string \<Rightarrow> pathway \<Rightarrow> world \<Rightarrow> error option \<times> world" where
  "run mn (PSave d) w = failure (save mn d w)"
| "run mn (PSoftDelete now d) w = failure (softDelete mn now d w)"
| "run mn (PRestore d) w = failure (restore mn d w)"
| "run mn (PDeleteOne d) w = failure (deleteOne mn d w)"
| "run mn (PFindOneAndDelete q) w = failure (findOneAndDelete mn q w)"
| "run mn (PFindOneAndUpdate q) w = failure (findOneAndUpdate mn q w)"
| "run mn (PDeleteMany q) w = failure (deleteMany mn q w)"
| "run mn (PUpdateMany q) w = failure (updateMany mn q w)"

text \<open>
  \<open>stamped w w'\<close>: from \<open>w\<close> to \<open>w'\<close> the actor context is the same, and the history
  has only grown, by entries that carry the actor of \<open>w\<close>.
\<close>

definition stamped :: "world \<Rightarrow> world \<Rightarrow> bool" where
  "stamped w w' =
     (async_storage w' = async_storage w \<and>
      (\<exists>new. history w' = history w @ new \<and>
             (\<forall>x\<in>set new. modifiedBy (snd x) = async_storage w ''currentUserId'')))"

text \<open>Two worlds that differ at most in the actor context and in the history.\<close>

definition same_store :: "world \<Rightarrow> world \<Rightarrow> bool" where
  "same_store w1 w2 =
     (models w1 = models w2 \<and> next_ref w1 = next_ref w2 \<and> writes w1 = writes w2 \<and>
      write_fault w1 = write_fault w2 \<and> collection w1 = collection w2)"

text \<open>An operation whose outcome does not depend on the actor context or the history.\<close>

definition oblivious :: "(world \<Rightarrow> 'a \<times> world) \<Rightarrow> bool" where
  "oblivious f =
     (\<forall>w1 w2. same_store w1 w2 \<longrightarrow>
        fst (f w1) = fst (f w2) \<and> same_store (snd (f w1)) (snd (f w2)))"

text \<open>The sample world with an actor bound.\<close>

definition acting :: "objectid \<Rightarrow> world" where
  "acting u = stocked\<lparr>async_storage := [''currentUserId'' \<mapsto> u]\<rparr>"

section \<open>The registry: lemmas\<close>

lemma getModel_cached: "models w c = Some m \<Longrightarrow> getModel c w = (m, w)"
  by (simp add: getModel_def)

lemma getModel_fresh:
  "models w c = None \<Longrightarrow>
   getModel c w =
     (\<lparr>model_ref = next_ref w, model_db = c\<rparr>,
      w\<lparr>next_ref := Suc (next_ref w),
        models := (models w)(c \<mapsto> \<lparr>model_ref = next_ref w, model_db = c\<rparr>)\<rparr>)"
  by (simp add: getModel_def connection_model_def)

lemma getModel_registers: "models (snd (getModel c w)) c = Some (fst (getModel c w))"
  by (cases "models w c") (simp_all add: getModel_fresh getModel_cached)

lemma getModel_keeps: "models w c = Some m \<Longrightarrow> models (snd (getModel c' w)) c = Some m"
  by (cases "models w c'") (auto simp: getModel_fresh getModel_cached)

lemma getModel_twice: "getModel c (snd (getModel c w)) = getModel c w"
  by (cases "models w c") (simp_all add: getModel_fresh getModel_cached)

lemma getModel_frame [simp]:
  "history (snd (getModel c w)) = history w"
  "writes (snd (getModel c w)) = writes w"
  "write_fault (snd (getModel c w)) = write_fault w"
  "async_storage (snd (getModel c w)) = async_storage w"
  "collection (snd (getModel c w)) = collection w"
  by (cases "models w c"; simp add: getModel_fresh getModel_cached)+

lemma getModel_registry_ok: "registry_ok w \<Longrightarrow> registry_ok (snd (getModel c w))"
proof (cases "models w c")
  case (Some m)
  assume "registry_ok w"
  with Some show ?thesis by (simp add: getModel_cached)
next
  case None
  assume ok: "registry_ok w"
  from ok have below: "\<And>c' m'. models w c' = Some m' \<Longrightarrow> model_ref m' < next_ref w"
    by (simp add: registry_ok_def)
  from ok have inj: "\<And>a b m m'. models w a = Some m \<Longrightarrow> models w b = Some m' \<Longrightarrow>
      model_ref m = model_ref m' \<Longrightarrow> a = b"
    unfolding registry_ok_def by blast
  show ?thesis
    unfolding registry_ok_def getModel_fresh [OF None] snd_conv
  proof (intro conjI allI impI)
    fix a m
    assume "models (w\<lparr>next_ref := Suc (next_ref w),
        models := (models w)(c \<mapsto> \<lparr>model_ref = next_ref w, model_db = c\<rparr>)\<rparr>) a = Some m"
    then show "model_ref m < next_ref (w\<lparr>next_ref := Suc (next_ref w),
        models := (models w)(c \<mapsto> \<lparr>model_ref = next_ref w, model_db = c\<rparr>)\<rparr>)"
      using below [of a m] by (auto split: if_splits)
  next
    fix a b m m'
    assume "models (w\<lparr>next_ref := Suc (next_ref w),
        models := (models w)(c \<mapsto> \<lparr>model_ref = next_ref w, model_db = c\<rparr>)\<rparr>) a = Some m"
      and "models (w\<lparr>next_ref := Suc (next_ref w),
        models := (models w)(c \<mapsto> \<lparr>model_ref = next_ref w, model_db = c\<rparr>)\<rparr>) b = Some m'"
      and "model_ref m = model_ref m'"
    then show "a = b"
      using below [of a m] below [of b m'] inj [of a m b m']
      by (auto split: if_splits)
  qed
qed

lemma registry_ok_empty: "registry_ok empty_world"
  by (simp add: registry_ok_def empty_world_def)

lemma getModel_distinct:
  assumes "registry_ok w" and "c1 \<noteq> c2"
  shows "model_ref (fst (getModel c1 w)) \<noteq> model_ref (fst (getModel c2 (snd (getModel c1 w))))"
proof -
  let ?w1 = "snd (getModel c1 w)"
  let ?w2 = "snd (getModel c2 ?w1)"
  have ok2: "registry_ok ?w2"
    using assms(1) by (intro getModel_registry_ok)
  have m1: "models ?w2 c1 = Some (fst (getModel c1 w))"
    by (rule getModel_keeps) (rule getModel_registers)
  have m2: "models ?w2 c2 = Some (fst (getModel c2 ?w1))"
    by (rule getModel_registers)
  show ?thesis
  proof
    assume "model_ref (fst (getModel c1 w)) = model_ref (fst (getModel c2 ?w1))"
    with ok2 m1 m2 have "c1 = c2"
      unfolding registry_ok_def by blast
    with assms(2) show False by simp
  qed
qed

lemma resolve_all_keeps: "models w c = Some m \<Longrightarrow> models (resolve_all cs w) c = Some m"
  unfolding resolve_all_def
  by (induction cs arbitrary: w) (simp_all add: getModel_keeps)

lemma getModel_stable:
  "getModel c (resolve_all cs (snd (getModel c w))) =
     (fst (getModel c w), resolve_all cs (snd (getModel c w)))"
  by (rule getModel_cached) (rule resolve_all_keeps, rule getModel_registers)

text \<open>
  C6. Once the writer of a connection has been resolved, resolving it again, also after
  the writers of any other connections were resolved in between, returns the same model
  object and constructs nothing (the state is left as it is). In a registry that is in
  order, the writers resolved for two distinct connections are distinct objects.
\<close>

theorem C6_one_writer_per_connection:
  "getModel c (resolve_all cs (snd (getModel c w))) =
     (fst (getModel c w), resolve_all cs (snd (getModel c w))) \<and>
   (registry_ok w \<longrightarrow> c1 \<noteq> c2 \<longrightarrow>
      model_ref (fst (getModel c1 w)) \<noteq> model_ref (fst (getModel c2 (snd (getModel c1 w)))))"
  using getModel_stable getModel_distinct by blast

theorem C6_one_writer_per_connection_witness:
  "registry_ok empty_world \<and> (3::nat) \<noteq> 4 \<and>
   getModel 3 (resolve_all [4, 3, 5] (snd (getModel 3 empty_world))) =
     (fst (getModel 3 empty_world), resolve_all [4, 3, 5] (snd (getModel 3 empty_world))) \<and>
   fst (getModel 3 empty_world) = \<lparr>model_ref = 0, model_db = 3\<rparr> \<and>
   model_ref (fst (getModel 3 empty_world)) \<noteq>
     model_ref (fst (getModel 4 (snd (getModel 3 empty_world))))"
proof -
  have ok: "registry_ok empty_world" by (rule registry_ok_empty)
  have ne: "(3::nat) \<noteq> 4" by simp
  have m: "fst (getModel 3 empty_world) = \<lparr>model_ref = 0, model_db = 3\<rparr>"
    by (simp add: getModel_def connection_model_def empty_world_def)
  from C6_one_writer_per_connection [of 3 "[4, 3, 5]" empty_world 3 4] ok ne m
  show ?thesis by blast
qed

section \<open>Writing entries, hooks and objects: lemmas\<close>

lemma createHistoryEntry_ok:
  "write_fault w (writes w) = None \<Longrightarrow>
   createHistoryEntry mn d act chg snap w =
     (Inr (), (snd (getModel (db d) w))
        \<lparr>history := history w @ [(writer (db d) w, entry mn w d act chg snap)],
         writes := Suc (writes w)\<rparr>)"
  by (simp add: createHistoryEntry_def model_save_def writer_def entry_def split_beta Let_def)

lemma createHistoryEntry_fault:
  "write_fault w (writes w) = Some err \<Longrightarrow>
   createHistoryEntry mn d act chg snap w =
     (Inl err, (snd (getModel (db d) w))\<lparr>writes := Suc (writes w)\<rparr>)"
  by (simp add: createHistoryEntry_def model_save_def split_beta Let_def)

lemma createHistoryEntry_result:
  "fst (createHistoryEntry mn d act chg snap w) =
     (case write_fault w (writes w) of Some err \<Rightarrow> Inl err | None \<Rightarrow> Inr ())"
  by (simp add: createHistoryEntry_ok createHistoryEntry_fault split: option.split)

lemma createHistoryEntry_frame [simp]:
  "writes (snd (createHistoryEntry mn d act chg snap w)) = Suc (writes w)"
  "write_fault (snd (createHistoryEntry mn d act chg snap w)) = write_fault w"
  "async_storage (snd (createHistoryEntry mn d act chg snap w)) = async_storage w"
  "collection (snd (createHistoryEntry mn d act chg snap w)) = collection w"
  by (cases "write_fault w (writes w)"; simp add: createHistoryEntry_ok createHistoryEntry_fault)+

lemma createHistoryEntry_history:
  "history (snd (createHistoryEntry mn d act chg snap w)) =
     (case write_fault w (writes w) of
        Some err \<Rightarrow> history w
      | None \<Rightarrow> history w @ [(writer (db d) w, entry mn w d act chg snap)])"
  by (cases "write_fault w (writes w)"; simp add: createHistoryEntry_ok createHistoryEntry_fault)

lemma createHistoryEntry_writer:
  "writer (db d) (snd (createHistoryEntry mn d act chg snap w)) = writer (db d) w"
proof -
  have "models (snd (createHistoryEntry mn d act chg snap w)) (db d) = Some (writer (db d) w)"
    by (cases "write_fault w (writes w)")
       (simp_all add: createHistoryEntry_ok createHistoryEntry_fault writer_def getModel_registers)
  then show ?thesis
    by (simp add: writer_def getModel_cached)
qed

lemma createHistoryEntry_entry:
  "entry mn (snd (createHistoryEntry mn' d' act' chg' snap' w)) d act chg snap =
     entry mn w d act chg snap"
  by (simp add: entry_def)

lemma with_pre_ok: "hook w = (Inr u, w') \<Longrightarrow> with_pre hook primary w = primary w'"
  by (simp add: with_pre_def)

lemma with_pre_fault: "hook w = (Inl err, w') \<Longrightarrow> with_pre hook primary w = (Inl err, w')"
  by (simp add: with_pre_def)

lemma with_pre_cases:
  "with_pre hook primary w =
     (case fst (hook w) of Inl err \<Rightarrow> (Inl err, snd (hook w)) | Inr u \<Rightarrow> primary (snd (hook w)))"
  by (simp add: with_pre_def split: prod.split sum.split)

lemma map_of_set_key: "map_of (set_key a k v) = (map_of a)(k \<mapsto> v)"
  by (induction a) (auto simp: fun_eq_iff)

lemma keys_set_key: "fst ` set (set_key a k v) = insert k (fst ` set a)"
  by (simp add: dom_map_of_conv_image_fst [symmetric] map_of_set_key)

lemma distinct_set_key: "distinct (map fst a) \<Longrightarrow> distinct (map fst (set_key a k v))"
  by (induction a) (auto simp: keys_set_key)

lemma map_of_collect:
  "map_of (fold (\<lambda>path acc. set_key acc path (g path)) ps acc) k =
     (if k \<in> set ps then Some (g k) else map_of acc k)"
  by (induction ps arbitrary: acc) (auto simp: map_of_set_key)

lemma keys_collect:
  "fst ` set (fold (\<lambda>path acc. set_key acc path (g path)) ps acc) = set ps \<union> fst ` set acc"
  by (induction ps arbitrary: acc) (auto simp: keys_set_key)

lemma distinct_collect:
  "distinct (map fst acc) \<Longrightarrow>
   distinct (map fst (fold (\<lambda>path acc. set_key acc path (g path)) ps acc))"
  by (induction ps arbitrary: acc) (auto simp: distinct_set_key)

lemma map_of_spread: "map_of (spread a b) = map_of a ++ map_of (rev b)"
  unfolding spread_def
  by (induction b arbitrary: a) (auto simp: map_of_set_key fun_eq_iff map_add_def split: option.splits)

lemma map_of_rev_distinct: "distinct (map fst xs) \<Longrightarrow> map_of (rev xs) = map_of xs"
  by (subst map_of_inject_set) (simp_all add: rev_map [symmetric])

lemma map_of_spread_wf:
  "wf_obj b \<Longrightarrow> map_of (spread a b) k = (case map_of b k of Some v \<Rightarrow> Some v | None \<Rightarrow> map_of a k)"
  by (simp add: map_of_spread wf_obj_def map_of_rev_distinct map_add_def)

lemma pre_save_result:
  "fst (pre_save mn d w) = (case write_fault w (writes w) of Some err \<Rightarrow> Inl err | None \<Rightarrow> Inr ())"
  by (simp add: pre_save_def Let_def createHistoryEntry_result)

lemma save_ok_iff: "(\<exists>d'. fst (save mn d w) = Inr d') \<longleftrightarrow> write_fault w (writes w) = None"
  by (cases "write_fault w (writes w)")
     (simp_all add: save_def with_pre_cases pre_save_result primary_save_def)

lemma save_ok:
  assumes "write_fault w (writes w) = None"
  shows "save mn d w =
     primary_save d (snd (createHistoryEntry mn d (if isNew d then Create else Update)
        (if isNew d then toObject d
         else fold (\<lambda>path acc. set_key acc path (get d path)) (modifiedPaths d) [])
        (Some (toObject d)) w))"
  using assms by (simp add: save_def with_pre_cases pre_save_def Let_def createHistoryEntry_result)

section \<open>The bulk loop: lemmas\<close>

lemma for_each_Cons:
  "for_each body (x # xs) w =
     (case fst (body x w) of
        Inl err \<Rightarrow> (Inl err, snd (body x w))
      | Inr u \<Rightarrow> for_each body xs (snd (body x w)))"
  by (simp split: prod.split sum.split)

lemma for_each_frame:
  "collection (snd (for_each (\<lambda>d. createHistoryEntry mn d act (chg d) (snap d)) ds w)) = collection w \<and>
   write_fault (snd (for_each (\<lambda>d. createHistoryEntry mn d act (chg d) (snap d)) ds w)) = write_fault w \<and>
   async_storage (snd (for_each (\<lambda>d. createHistoryEntry mn d act (chg d) (snap d)) ds w)) = async_storage w"
proof (induction ds arbitrary: w)
  case Nil
  show ?case by simp
next
  case (Cons x xs)
  show ?case
    unfolding for_each_Cons
    by (cases "write_fault w (writes w)") (simp_all add: createHistoryEntry_result Cons.IH)
qed

lemma writes_ok_step:
  assumes "writes_ok w (Suc n)"
  shows "write_fault w (writes w) = None"
    and "writes_ok (snd (createHistoryEntry mn d act chg snap w)) n"
proof -
  from assms show "write_fault w (writes w) = None"
    unfolding writes_ok_def by (metis add.right_neutral zero_less_Suc)
  show "writes_ok (snd (createHistoryEntry mn d act chg snap w)) n"
    unfolding writes_ok_def
  proof (intro allI impI)
    fix j assume "j < n"
    then have "Suc j < Suc n" by simp
    with assms have "write_fault w (writes w + Suc j) = None"
      unfolding writes_ok_def by blast
    then show "write_fault (snd (createHistoryEntry mn d act chg snap w))
        (writes (snd (createHistoryEntry mn d act chg snap w)) + j) = None"
      by simp
  qed
qed

lemma for_each_ok:
  assumes "\<forall>d\<in>set ds. db d = c" and "writes_ok w (length ds)"
  shows "fst (for_each (\<lambda>d. createHistoryEntry mn d act (chg d) (snap d)) ds w) = Inr () \<and>
         history (snd (for_each (\<lambda>d. createHistoryEntry mn d act (chg d) (snap d)) ds w)) =
           history w @ map (\<lambda>d. (writer c w, entry mn w d act (chg d) (snap d))) ds"
  using assms
proof (induction ds arbitrary: w)
  case Nil
  show ?case by simp
next
  case (Cons x xs)
  let ?w1 = "snd (createHistoryEntry mn x act (chg x) (snap x) w)"
  from Cons.prems have dbx: "db x = c" and dbs: "\<forall>d\<in>set xs. db d = c" by simp_all
  from Cons.prems have ok0: "write_fault w (writes w) = None"
    and ok': "writes_ok ?w1 (length xs)"
    using writes_ok_step [of w "length xs"] by simp_all
  have h: "history ?w1 = history w @ [(writer c w, entry mn w x act (chg x) (snap x))]"
    using ok0 dbx by (simp add: createHistoryEntry_history)
  have wr: "writer c ?w1 = writer c w"
    using createHistoryEntry_writer [of x mn act "chg x" "snap x" w] dbx by simp
  have en: "\<And>d. entry mn ?w1 d act (chg d) (snap d) = entry mn w d act (chg d) (snap d)"
    by (rule createHistoryEntry_entry)
  have step: "for_each (\<lambda>d. createHistoryEntry mn d act (chg d) (snap d)) (x # xs) w =
      for_each (\<lambda>d. createHistoryEntry mn d act (chg d) (snap d)) xs ?w1"
    unfolding for_each_Cons by (simp add: createHistoryEntry_result ok0)
  show ?case
    unfolding step using Cons.IH [OF dbs ok'] by (simp add: h wr en)
qed

lemma for_each_fault:
  assumes "\<forall>d\<in>set ds. db d = c" and "k < length ds" and "writes_ok w k"
    and "write_fault w (writes w + k) = Some err"
  shows "fst (for_each (\<lambda>d. createHistoryEntry mn d act (chg d) (snap d)) ds w) = Inl err \<and>
         history (snd (for_each (\<lambda>d. createHistoryEntry mn d act (chg d) (snap d)) ds w)) =
           history w @ map (\<lambda>d. (writer c w, entry mn w d act (chg d) (snap d))) (take k ds)"
  using assms
proof (induction ds arbitrary: w k)
  case Nil
  then show ?case by simp
next
  case (Cons x xs)
  let ?w1 = "snd (createHistoryEntry mn x act (chg x) (snap x) w)"
  from Cons.prems have dbx: "db x = c" and dbs: "\<forall>d\<in>set xs. db d = c" by simp_all
  show ?case
  proof (cases k)
    case 0
    with Cons.prems have f: "write_fault w (writes w) = Some err" by simp
    then have "history ?w1 = history w"
      by (simp add: createHistoryEntry_history)
    with 0 f show ?thesis
      unfolding for_each_Cons by (simp add: createHistoryEntry_result)
  next
    case (Suc k')
    with Cons.prems have ok0: "write_fault w (writes w) = None"
      and ok': "writes_ok ?w1 k'"
      using writes_ok_step [of w k'] by simp_all
    from Suc Cons.prems have len: "k' < length xs" by simp
    from Suc Cons.prems have f': "write_fault ?w1 (writes ?w1 + k') = Some err"
      by simp
    have h: "history ?w1 = history w @ [(writer c w, entry mn w x act (chg x) (snap x))]"
      using ok0 dbx by (simp add: createHistoryEntry_history)
    have wr: "writer c ?w1 = writer c w"
      using createHistoryEntry_writer [of x mn act "chg x" "snap x" w] dbx by simp
    have en: "\<And>d. entry mn ?w1 d act (chg d) (snap d) = entry mn w d act (chg d) (snap d)"
      by (rule createHistoryEntry_entry)
    have step: "for_each (\<lambda>d. createHistoryEntry mn d act (chg d) (snap d)) (x # xs) w =
        for_each (\<lambda>d. createHistoryEntry mn d act (chg d) (snap d)) xs ?w1"
      unfolding for_each_Cons by (simp add: createHistoryEntry_result ok0)
    show ?thesis
      unfolding step using Cons.IH [OF dbs len ok' f'] by (simp add: h wr en Suc)
  qed
qed

lemma find_docs_db: "\<forall>d\<in>set (find_docs q w). db d = q_db q"
  by (simp add: find_docs_def hydrate_def)

lemma pre_deleteMany_eq:
  "pre_deleteMany mn q w =
     for_each (\<lambda>d. createHistoryEntry mn d HardDelete ((\<lambda>_. []) d) ((\<lambda>d. Some (toObject d)) d))
       (find_docs q w) w"
  by (simp add: pre_deleteMany_def)

lemma pre_updateMany_eq:
  "pre_updateMany mn q w =
     for_each (\<lambda>d. createHistoryEntry mn d Update ((\<lambda>_. getUpdate q) d)
                     ((\<lambda>d. Some (spread (toObject d) (getUpdate q))) d))
       (find_docs q w) w"
  by (simp add: pre_updateMany_def Let_def)

lemma pre_deleteMany_ok:
  assumes "writes_ok w (length (find_docs q w))"
  shows "fst (pre_deleteMany mn q w) = Inr ()"
    and "history (snd (pre_deleteMany mn q w)) =
           history w @ map (\<lambda>d. (writer (q_db q) w, hardDelete_entry mn w d)) (find_docs q w)"
    and "collection (snd (pre_deleteMany mn q w)) = collection w"
  unfolding pre_deleteMany_eq hardDelete_entry_def
  using for_each_ok [OF find_docs_db assms, of mn HardDelete "\<lambda>_. []" "\<lambda>d. Some (toObject d)"]
    for_each_frame [of mn HardDelete "\<lambda>_. []" "\<lambda>d. Some (toObject d)" "find_docs q w" w]
  by simp_all

lemma pre_updateMany_ok:
  assumes "writes_ok w (length (find_docs q w))"
  shows "fst (pre_updateMany mn q w) = Inr ()"
    and "history (snd (pre_updateMany mn q w)) =
           history w @ map (\<lambda>d. (writer (q_db q) w, update_entry mn w (getUpdate q) d)) (find_docs q w)"
    and "collection (snd (pre_updateMany mn q w)) = collection w"
  unfolding pre_updateMany_eq update_entry_def
  using for_each_ok [OF find_docs_db assms, of mn Update "\<lambda>_. getUpdate q"
      "\<lambda>d. Some (spread (toObject d) (getUpdate q))"]
    for_each_frame [of mn Update "\<lambda>_. getUpdate q"
      "\<lambda>d. Some (spread (toObject d) (getUpdate q))" "find_docs q w" w]
  by simp_all

lemma pre_deleteMany_fault:
  assumes "k < length (find_docs q w)" and "writes_ok w k"
    and "write_fault w (writes w + k) = Some err"
  shows "fst (pre_deleteMany mn q w) = Inl err"
    and "history (snd (pre_deleteMany mn q w)) =
           history w @ map (\<lambda>d. (writer (q_db q) w, hardDelete_entry mn w d)) (take k (find_docs q w))"
    and "collection (snd (pre_deleteMany mn q w)) = collection w"
  unfolding pre_deleteMany_eq hardDelete_entry_def
  using for_each_fault [OF find_docs_db assms, of mn HardDelete "\<lambda>_. []" "\<lambda>d. Some (toObject d)"]
    for_each_frame [of mn HardDelete "\<lambda>_. []" "\<lambda>d. Some (toObject d)" "find_docs q w" w]
  by simp_all

lemma pre_updateMany_fault:
  assumes "k < length (find_docs q w)" and "writes_ok w k"
    and "write_fault w (writes w + k) = Some err"
  shows "fst (pre_updateMany mn q w) = Inl err"
    and "history (snd (pre_updateMany mn q w)) =
           history w @ map (\<lambda>d. (writer (q_db q) w, update_entry mn w (getUpdate q) d))
                         (take k (find_docs q w))"
    and "collection (snd (pre_updateMany mn q w)) = collection w"
  unfolding pre_updateMany_eq update_entry_def
  using for_each_fault [OF find_docs_db assms, of mn Update "\<lambda>_. getUpdate q"
      "\<lambda>d. Some (spread (toObject d) (getUpdate q))"]
    for_each_frame [of mn Update "\<lambda>_. getUpdate q"
      "\<lambda>d. Some (spread (toObject d) (getUpdate q))" "find_docs q w" w]
  by simp_all

lemma deleteMany_ok:
  assumes "writes_ok w (length (find_docs q w))"
  shows "fst (deleteMany mn q w) = Inr () \<and>
         history (snd (deleteMany mn q w)) =
           history w @ map (\<lambda>d. (writer (q_db q) w, hardDelete_entry mn w d)) (find_docs q w) \<and>
         collection (snd (deleteMany mn q w)) = filter (\<lambda>s. \<not> matches q s) (collection w)"
  using pre_deleteMany_ok [OF assms, of mn]
  by (simp add: deleteMany_def with_pre_cases primary_deleteMany_def)

lemma updateMany_ok:
  assumes "writes_ok w (length (find_docs q w))"
  shows "fst (updateMany mn q w) = Inr () \<and>
         history (snd (updateMany mn q w)) =
           history w @ map (\<lambda>d. (writer (q_db q) w, update_entry mn w (getUpdate q) d)) (find_docs q w) \<and>
         collection (snd (updateMany mn q w)) =
           map (\<lambda>s. if matches q s then apply_patch (getUpdate q) s else s) (collection w)"
  using pre_updateMany_ok [OF assms, of mn]
  by (simp add: updateMany_def with_pre_cases primary_updateMany_def)

lemma deleteMany_fault:
  assumes "k < length (find_docs q w)" and "writes_ok w k"
    and "write_fault w (writes w + k) = Some err"
  shows "fst (deleteMany mn q w) = Inl err \<and>
         history (snd (deleteMany mn q w)) =
           history w @ map (\<lambda>d. (writer (q_db q) w, hardDelete_entry mn w d)) (take k (find_docs q w)) \<and>
         collection (snd (deleteMany mn q w)) = collection w"
  using pre_deleteMany_fault [OF assms, of mn]
  by (simp add: deleteMany_def with_pre_cases)

lemma updateMany_fault:
  assumes "k < length (find_docs q w)" and "writes_ok w k"
    and "write_fault w (writes w + k) = Some err"
  shows "fst (updateMany mn q w) = Inl err \<and>
         history (snd (updateMany mn q w)) =
           history w @ map (\<lambda>d. (writer (q_db q) w, update_entry mn w (getUpdate q) d))
                         (take k (find_docs q w)) \<and>
         collection (snd (updateMany mn q w)) = collection w"
  using pre_updateMany_fault [OF assms, of mn]
  by (simp add: updateMany_def with_pre_cases)

section \<open>Query pathways: lemmas\<close>

lemma findOne_Some:
  assumes "findOne q w = Some d"
  shows "\<exists>pre s post. collection w = pre @ s # post \<and> (\<forall>x\<in>set pre. \<not> matches q x) \<and>
           matches q s \<and> d = hydrate (q_db q) s"
proof -
  from assms obtain ds where "find_docs q w = d # ds"
    by (auto simp: findOne_def split: list.splits)
  then obtain s ss where f: "filter (matches q) (collection w) = s # ss" and d: "d = hydrate (q_db q) s"
    by (auto simp: find_docs_def)
  from f obtain pre post where "collection w = pre @ s # post" "\<forall>x\<in>set pre. \<not> matches q x" "matches q s"
    unfolding filter_eq_Cons_iff by blast
  with d show ?thesis by blast
qed

lemma findOne_db: "findOne q w = Some d \<Longrightarrow> db d = q_db q"
  by (auto dest!: findOne_Some simp: hydrate_def)

lemma findOne_in_find_docs: "findOne q w = Some d \<Longrightarrow> d \<in> set (find_docs q w)"
  by (auto simp: findOne_def split: list.splits)

lemma findOne_None: "findOne q w = None \<longleftrightarrow> (\<forall>s\<in>set (collection w). \<not> matches q s)"
proof -
  have "findOne q w = None \<longleftrightarrow> filter (matches q) (collection w) = []"
    by (cases "filter (matches q) (collection w)") (simp_all add: findOne_def find_docs_def)
  then show ?thesis by (simp add: filter_empty_conv)
qed

lemma remove1_split: "s \<notin> set pre \<Longrightarrow> remove1 s (pre @ s # post) = pre @ post"
  by (induction pre) auto

lemma replace_first_split:
  "s \<notin> set pre \<Longrightarrow> replace_first s y (pre @ s # post) = pre @ y # post"
  by (induction pre) auto

lemma host_pick_unsorted:
  assumes "q_sort q = None" and "collection w = pre @ s # post"
    and "\<forall>x\<in>set pre. \<not> matches q x" and "matches q s"
  shows "host_pick q w = Some s" and "s \<notin> set pre"
proof -
  have "filter (matches q) (collection w) = s # filter (matches q) post"
    using assms(2-4) by simp
  then show "host_pick q w = Some s"
    using assms(1) by (simp add: host_pick_def)
  show "s \<notin> set pre" using assms(3,4) by blast
qed

lemma host_pick_entry [simp]:
  "host_pick q (snd (createHistoryEntry mn d act chg snap w)) = host_pick q w"
  by (simp add: host_pick_def)

lemma host_pick_no_match: "findOne q w = None \<Longrightarrow> host_pick q w = None"
proof -
  assume "findOne q w = None"
  then have "filter (matches q) (collection w) = []"
    by (simp add: findOne_None filter_empty_conv)
  then show ?thesis
    by (simp add: host_pick_def split: option.split)
qed

lemma toObject_nonempty: "toObject d \<noteq> []"
  by (simp add: toObject_def)

lemma deleteOne_ok:
  assumes "fst (deleteOne mn d w) = Inr u"
  shows "history (snd (deleteOne mn d w)) = history w @ [(writer (db d) w, hardDelete_entry mn w d)]"
    and "collection (snd (deleteOne mn d w)) = filter (\<lambda>s. fst s \<noteq> doc_id d) (collection w)"
proof -
  have ok: "write_fault w (writes w) = None"
    using assms
    by (cases "write_fault w (writes w)")
       (simp_all add: deleteOne_def with_pre_cases pre_deleteOne_def createHistoryEntry_result)
  then show "history (snd (deleteOne mn d w)) = history w @ [(writer (db d) w, hardDelete_entry mn w d)]"
    and "collection (snd (deleteOne mn d w)) = filter (\<lambda>s. fst s \<noteq> doc_id d) (collection w)"
    by (simp_all add: deleteOne_def with_pre_cases pre_deleteOne_def createHistoryEntry_result
          createHistoryEntry_history primary_deleteOne_def hardDelete_entry_def)
qed

lemma findOneAndDelete_ok:
  assumes "fst (findOneAndDelete mn q w) = Inr u" and "findOne q w = Some d"
  shows "history (snd (findOneAndDelete mn q w)) =
           history w @ [(writer (db d) w, hardDelete_entry mn w d)]"
    and "collection (snd (findOneAndDelete mn q w)) =
           (case host_pick q w of None \<Rightarrow> collection w | Some s \<Rightarrow> remove1 s (collection w))"
proof -
  have ok: "write_fault w (writes w) = None"
    using assms
    by (cases "write_fault w (writes w)")
       (simp_all add: findOneAndDelete_def with_pre_cases pre_findOneAndDelete_def
          createHistoryEntry_result)
  then show "history (snd (findOneAndDelete mn q w)) =
           history w @ [(writer (db d) w, hardDelete_entry mn w d)]"
    and "collection (snd (findOneAndDelete mn q w)) =
           (case host_pick q w of None \<Rightarrow> collection w | Some s \<Rightarrow> remove1 s (collection w))"
    using assms(2)
    by (simp_all add: findOneAndDelete_def with_pre_cases pre_findOneAndDelete_def
          createHistoryEntry_result createHistoryEntry_history primary_findOneAndDelete_def
          hardDelete_entry_def cong: option.case_cong)
qed

lemmas sample_defs =
  widget_def widget_renamed_def shelf_def stocked_def failing_at_def by_kind_def empty_world_def
  hydrate_def matches_def find_docs_def findOne_def

lemmas query_defs =
  deleteOne_def pre_deleteOne_def primary_deleteOne_def
  findOneAndDelete_def pre_findOneAndDelete_def primary_findOneAndDelete_def
  findOneAndUpdate_def pre_findOneAndUpdate_def primary_findOneAndUpdate_def
  host_pick_def newest_first_def

lemma written_append: "history w' = history w @ xs \<Longrightarrow> written w w' = map snd xs"
  by (simp add: written_def)

lemma for_each_prefix:
  assumes "\<forall>d\<in>set ds. db d = c"
  shows "\<exists>n\<le>length ds.
           history (snd (for_each (\<lambda>d. createHistoryEntry mn d act (chg d) (snap d)) ds w)) =
             history w @ map (\<lambda>d. (writer c w, entry mn w d act (chg d) (snap d))) (take n ds)"
  using assms
proof (induction ds arbitrary: w)
  case Nil
  show ?case by simp
next
  case (Cons x xs)
  let ?w1 = "snd (createHistoryEntry mn x act (chg x) (snap x) w)"
  from Cons.prems have dbx: "db x = c" and dbs: "\<forall>d\<in>set xs. db d = c" by simp_all
  show ?case
  proof (cases "write_fault w (writes w)")
    case (Some err)
    then have "history (snd (for_each (\<lambda>d. createHistoryEntry mn d act (chg d) (snap d)) (x # xs) w)) =
        history w @ map (\<lambda>d. (writer c w, entry mn w d act (chg d) (snap d))) (take 0 (x # xs))"
      unfolding for_each_Cons
      by (simp add: createHistoryEntry_result createHistoryEntry_history)
    then show ?thesis by blast
  next
    case None
    have h: "history ?w1 = history w @ [(writer c w, entry mn w x act (chg x) (snap x))]"
      using None dbx by (simp add: createHistoryEntry_history)
    have wr: "writer c ?w1 = writer c w"
      using createHistoryEntry_writer [of x mn act "chg x" "snap x" w] dbx by simp
    have en: "\<And>d. entry mn ?w1 d act (chg d) (snap d) = entry mn w d act (chg d) (snap d)"
      by (rule createHistoryEntry_entry)
    have step: "for_each (\<lambda>d. createHistoryEntry mn d act (chg d) (snap d)) (x # xs) w =
        for_each (\<lambda>d. createHistoryEntry mn d act (chg d) (snap d)) xs ?w1"
      unfolding for_each_Cons by (simp add: createHistoryEntry_result None)
    from Cons.IH [OF dbs, of ?w1] obtain n where n: "n \<le> length xs"
      and hn: "history (snd (for_each (\<lambda>d. createHistoryEntry mn d act (chg d) (snap d)) xs ?w1)) =
        history ?w1 @ map (\<lambda>d. (writer c ?w1, entry mn ?w1 d act (chg d) (snap d))) (take n xs)"
      by blast
    have "history (snd (for_each (\<lambda>d. createHistoryEntry mn d act (chg d) (snap d)) (x # xs) w)) =
        history w @ map (\<lambda>d. (writer c w, entry mn w d act (chg d) (snap d))) (take (Suc n) (x # xs))"
      unfolding step hn by (simp add: h wr en)
    moreover have "Suc n \<le> length (x # xs)" using n by simp
    ultimately show ?thesis by blast
  qed
qed

lemma updateMany_written:
  "\<exists>n\<le>length (find_docs q w).
     written w (snd (updateMany mn q w)) =
       map (update_entry mn w (getUpdate q)) (take n (find_docs q w))"
proof -
  from for_each_prefix [OF find_docs_db, of q w mn Update "\<lambda>_. getUpdate q"
      "\<lambda>d. Some (spread (toObject d) (getUpdate q))" w]
  obtain n where n: "n \<le> length (find_docs q w)"
    and h: "history (snd (pre_updateMany mn q w)) =
      history w @ map (\<lambda>d. (writer (q_db q) w, update_entry mn w (getUpdate q) d))
                    (take n (find_docs q w))"
    unfolding pre_updateMany_eq update_entry_def by blast
  have "history (snd (updateMany mn q w)) = history (snd (pre_updateMany mn q w))"
    by (cases "fst (pre_updateMany mn q w)")
       (simp_all add: updateMany_def with_pre_cases primary_updateMany_def)
  with h have "written w (snd (updateMany mn q w)) =
      map (update_entry mn w (getUpdate q)) (take n (find_docs q w))"
    by (simp add: written_def comp_def)
  with n show ?thesis by blast
qed

lemma findOneAndUpdate_written:
  "written w (snd (findOneAndUpdate mn q w)) =
     (case findOne q w of
        None \<Rightarrow> []
      | Some d \<Rightarrow> (case write_fault w (writes w) of
                     None \<Rightarrow> [update_entry mn w (getUpdate q) d]
                   | Some err \<Rightarrow> []))"
  by (simp add: written_def findOneAndUpdate_def with_pre_cases pre_findOneAndUpdate_def Let_def
        createHistoryEntry_result createHistoryEntry_history primary_findOneAndUpdate_def
        update_entry_def
      split: option.split)

lemmas run_defs =
  save_def with_pre_def pre_save_def createHistoryEntry_def getModel_def connection_model_def
  model_save_def primary_save_def empty_world_def toObject_def get_def Let_def writer_def

section \<open>Instance save: the claims\<close>

text \<open>
  C1. A save of a new document that completes adds exactly one entry to the history. Its
  action is Create, its changes are the document's full plain state, and its snapshot is
  that same state.
\<close>

theorem C1_create_entry:
  assumes "isNew d" and "fst (save mn d w) = Inr d'"
  shows "\<exists>e. history (snd (save mn d w)) = history w @ [(writer (db d) w, e)] \<and>
             action e = Create \<and> changes e = toObject d \<and> snapshot e = Some (toObject d) \<and>
             originalId e = doc_id d \<and> modelName e = mn"
proof -
  from assms(2) have ok: "write_fault w (writes w) = None"
    using save_ok_iff [of mn d w] by blast
  let ?e = "entry mn w d Create (toObject d) (Some (toObject d))"
  have "history (snd (save mn d w)) = history w @ [(writer (db d) w, ?e)]"
    using assms(1) ok
    by (simp add: save_ok primary_save_def createHistoryEntry_history)
  then show ?thesis
    by (intro exI [of _ ?e]) (simp add: entry_def)
qed

theorem C1_create_entry_witness:
  "isNew widget \<and>
   fst (save ''Widget'' widget empty_world) = Inr (widget\<lparr>isNew := False, modifiedPaths := []\<rparr>) \<and>
   (\<exists>e. history (snd (save ''Widget'' widget empty_world)) =
           history empty_world @ [(writer (db widget) empty_world, e)] \<and>
         action e = Create \<and> changes e = toObject widget \<and>
         snapshot e = Some (toObject widget) \<and>
         originalId e = doc_id widget \<and> modelName e = ''Widget'') \<and>
   toObject widget = [(''_id'', JId 1), (''name'', JStr ''a'')]"
proof -
  have h1: "isNew widget" by (simp add: widget_def)
  have h2: "fst (save ''Widget'' widget empty_world) =
      Inr (widget\<lparr>isNew := False, modifiedPaths := []\<rparr>)"
    by (simp add: widget_def run_defs)
  have h3: "toObject widget = [(''_id'', JId 1), (''name'', JStr ''a'')]"
    by (simp add: widget_def toObject_def)
  from C1_create_entry [OF h1 h2] h1 h2 h3 show ?thesis by blast
qed

text \<open>
  C2. A save of a document that is not new and that completes adds exactly one entry. Its
  action is Update; the keys of its changes are exactly the paths the tracker reports as
  modified, each mapped to the document's current value at that path, and no other path
  has a value there; its snapshot is the document's full plain state, which is the state
  of the document the save returns.
\<close>

theorem C2_update_entry:
  assumes "\<not> isNew d" and "fst (save mn d w) = Inr d'"
  shows "\<exists>e. history (snd (save mn d w)) = history w @ [(writer (db d) w, e)] \<and>
             action e = Update \<and>
             fst ` set (changes e) = set (modifiedPaths d) \<and>
             wf_obj (changes e) \<and>
             (\<forall>p \<in> set (modifiedPaths d). map_of (changes e) p = Some (get d p)) \<and>
             (\<forall>p. p \<notin> set (modifiedPaths d) \<longrightarrow> map_of (changes e) p = None) \<and>
             snapshot e = Some (toObject d) \<and> toObject d' = toObject d"
proof -
  from assms(2) have ok: "write_fault w (writes w) = None"
    using save_ok_iff [of mn d w] by blast
  let ?chg = "fold (\<lambda>path acc. set_key acc path (get d path)) (modifiedPaths d) []"
  let ?e = "entry mn w d Update ?chg (Some (toObject d))"
  have hist: "history (snd (save mn d w)) = history w @ [(writer (db d) w, ?e)]"
    using assms(1) ok
    by (simp add: save_ok primary_save_def createHistoryEntry_history)
  have d': "d' = d\<lparr>isNew := False, modifiedPaths := []\<rparr>"
    using assms ok by (simp add: save_ok primary_save_def)
  have keys: "fst ` set ?chg = set (modifiedPaths d)"
    by (simp add: keys_collect)
  have wf: "wf_obj ?chg"
    by (simp add: wf_obj_def distinct_collect)
  have vals: "\<And>p. map_of ?chg p = (if p \<in> set (modifiedPaths d) then Some (get d p) else None)"
    by (simp add: map_of_collect)
  show ?thesis
    using hist keys wf vals d'
    by (intro exI [of _ ?e]) (simp add: entry_def toObject_def)
qed

theorem C2_update_entry_witness:
  "\<not> isNew widget_renamed \<and>
   fst (save ''Widget'' widget_renamed empty_world) = Inr (widget_renamed\<lparr>modifiedPaths := []\<rparr>) \<and>
   (\<exists>e. history (snd (save ''Widget'' widget_renamed empty_world)) =
           history empty_world @ [(writer (db widget_renamed) empty_world, e)] \<and>
         action e = Update \<and>
         fst ` set (changes e) = set (modifiedPaths widget_renamed) \<and>
         wf_obj (changes e) \<and>
         (\<forall>p \<in> set (modifiedPaths widget_renamed). map_of (changes e) p = Some (get widget_renamed p)) \<and>
         (\<forall>p. p \<notin> set (modifiedPaths widget_renamed) \<longrightarrow> map_of (changes e) p = None) \<and>
         snapshot e = Some (toObject widget_renamed) \<and>
         toObject (widget_renamed\<lparr>modifiedPaths := []\<rparr>) = toObject widget_renamed) \<and>
   get widget_renamed ''name'' = JStr ''b''"
proof -
  have h1: "\<not> isNew widget_renamed" by (simp add: widget_renamed_def)
  have h2: "fst (save ''Widget'' widget_renamed empty_world) =
      Inr (widget_renamed\<lparr>modifiedPaths := []\<rparr>)"
    by (simp add: widget_renamed_def run_defs)
  have h3: "get widget_renamed ''name'' = JStr ''b''"
    by (simp add: widget_renamed_def get_def toObject_def)
  from C2_update_entry [OF h1 h2] h1 h2 h3 show ?thesis by blast
qed

section \<open>Bulk pathways: the claim\<close>

text \<open>
  C4. Let the criteria of a bulk delete or bulk update match N entities. When the next N
  writes of the history store succeed, the pathway completes, the history grows by exactly
  N entries, one per match in the order the matches were fetched (the j-th write asked of
  the store is the one for the j-th match), and the bulk mutation is applied. When the
  writes before the k-th succeed and the k-th fails (1 \<le> k \<le> N), the pathway ends with
  the store's error, the history has grown by exactly the entries of the first k - 1
  matches, and the stored entities are as they were.
\<close>

theorem C4_bulk_entries:
  "(writes_ok w (length (find_docs q w)) \<longrightarrow>
      fst (deleteMany mn q w) = Inr () \<and>
      history (snd (deleteMany mn q w)) =
        history w @ map (\<lambda>d. (writer (q_db q) w, hardDelete_entry mn w d)) (find_docs q w) \<and>
      collection (snd (deleteMany mn q w)) = filter (\<lambda>s. \<not> matches q s) (collection w) \<and>
      fst (updateMany mn q w) = Inr () \<and>
      history (snd (updateMany mn q w)) =
        history w @ map (\<lambda>d. (writer (q_db q) w, update_entry mn w (getUpdate q) d)) (find_docs q w) \<and>
      collection (snd (updateMany mn q w)) =
        map (\<lambda>s. if matches q s then apply_patch (getUpdate q) s else s) (collection w)) \<and>
   (0 < k \<and> k \<le> length (find_docs q w) \<and> writes_ok w (k - 1) \<and>
    write_fault w (writes w + (k - 1)) = Some err \<longrightarrow>
      fst (deleteMany mn q w) = Inl err \<and>
      history (snd (deleteMany mn q w)) =
        history w @ map (\<lambda>d. (writer (q_db q) w, hardDelete_entry mn w d))
                      (take (k - 1) (find_docs q w)) \<and>
      collection (snd (deleteMany mn q w)) = collection w \<and>
      fst (updateMany mn q w) = Inl err \<and>
      history (snd (updateMany mn q w)) =
        history w @ map (\<lambda>d. (writer (q_db q) w, update_entry mn w (getUpdate q) d))
                      (take (k - 1) (find_docs q w)) \<and>
      collection (snd (updateMany mn q w)) = collection w)"
proof (intro conjI impI)
  assume ok: "writes_ok w (length (find_docs q w))"
  show "fst (deleteMany mn q w) = Inr ()"
    and "history (snd (deleteMany mn q w)) =
        history w @ map (\<lambda>d. (writer (q_db q) w, hardDelete_entry mn w d)) (find_docs q w)"
    and "collection (snd (deleteMany mn q w)) = filter (\<lambda>s. \<not> matches q s) (collection w)"
    using deleteMany_ok [OF ok, of mn] by simp_all
  show "fst (updateMany mn q w) = Inr ()"
    and "history (snd (updateMany mn q w)) =
        history w @ map (\<lambda>d. (writer (q_db q) w, update_entry mn w (getUpdate q) d)) (find_docs q w)"
    and "collection (snd (updateMany mn q w)) =
        map (\<lambda>s. if matches q s then apply_patch (getUpdate q) s else s) (collection w)"
    using updateMany_ok [OF ok, of mn] by simp_all
next
  assume f: "0 < k \<and> k \<le> length (find_docs q w) \<and> writes_ok w (k - 1) \<and>
    write_fault w (writes w + (k - 1)) = Some err"
  then have a: "k - 1 < length (find_docs q w)" and b: "writes_ok w (k - 1)"
    and c: "write_fault w (writes w + (k - 1)) = Some err"
    by auto
  show "fst (deleteMany mn q w) = Inl err"
    and "history (snd (deleteMany mn q w)) =
        history w @ map (\<lambda>d. (writer (q_db q) w, hardDelete_entry mn w d))
                      (take (k - 1) (find_docs q w))"
    and "collection (snd (deleteMany mn q w)) = collection w"
    using deleteMany_fault [OF a b c, of mn] by simp_all
  show "fst (updateMany mn q w) = Inl err"
    and "history (snd (updateMany mn q w)) =
        history w @ map (\<lambda>d. (writer (q_db q) w, update_entry mn w (getUpdate q) d))
                      (take (k - 1) (find_docs q w))"
    and "collection (snd (updateMany mn q w)) = collection w"
    using updateMany_fault [OF a b c, of mn] by simp_all
qed

lemma find_docs_by_kind:
  "find_docs (by_kind ''x'') stocked = [hydrate 0 (shelf ! 0), hydrate 0 (shelf ! 2)]"
  "find_docs (by_kind ''x'') (failing_at n) = [hydrate 0 (shelf ! 0), hydrate 0 (shelf ! 2)]"
  by (simp_all add: find_docs_def by_kind_def stocked_def failing_at_def empty_world_def shelf_def
        matches_def toObject_def hydrate_def)

theorem C4_bulk_entries_witness:
  "writes_ok stocked (length (find_docs (by_kind ''x'') stocked)) \<and>
   length (find_docs (by_kind ''x'') stocked) = 2 \<and>
   fst (deleteMany ''Widget'' (by_kind ''x'') stocked) = Inr () \<and>
   map snd (history (snd (deleteMany ''Widget'' (by_kind ''x'') stocked))) =
     map (hardDelete_entry ''Widget'' stocked) [hydrate 0 (shelf ! 0), hydrate 0 (shelf ! 2)] \<and>
   collection (snd (deleteMany ''Widget'' (by_kind ''x'') stocked)) = [shelf ! 1] \<and>
   (0::nat) < 2 \<and> 2 \<le> length (find_docs (by_kind ''x'') (failing_at 1)) \<and>
   writes_ok (failing_at 1) (2 - 1) \<and>
   write_fault (failing_at 1) (writes (failing_at 1) + (2 - 1)) =
     Some (StorageError ''history store down'') \<and>
   fst (updateMany ''Widget'' (by_kind ''x'') (failing_at 1)) =
     Inl (StorageError ''history store down'') \<and>
   map snd (history (snd (updateMany ''Widget'' (by_kind ''x'') (failing_at 1)))) =
     [update_entry ''Widget'' (failing_at 1) [(''name'', JStr ''z'')] (hydrate 0 (shelf ! 0))] \<and>
   collection (snd (updateMany ''Widget'' (by_kind ''x'') (failing_at 1))) = shelf"
proof -
  have h1: "writes_ok stocked (length (find_docs (by_kind ''x'') stocked))"
    by (simp add: writes_ok_def stocked_def empty_world_def)
  have h2: "(0::nat) < 2 \<and> 2 \<le> length (find_docs (by_kind ''x'') (failing_at 1)) \<and>
      writes_ok (failing_at 1) (2 - 1) \<and>
      write_fault (failing_at 1) (writes (failing_at 1) + (2 - 1)) =
        Some (StorageError ''history store down'')"
  proof -
    have "length (find_docs (by_kind ''x'') (failing_at 1)) = 2"
      by (simp add: find_docs_by_kind)
    moreover have "writes_ok (failing_at 1) (2 - 1)"
      by (simp add: writes_ok_def failing_at_def stocked_def empty_world_def)
    moreover have "write_fault (failing_at 1) (writes (failing_at 1) + (2 - 1)) =
        Some (StorageError ''history store down'')"
      by (simp add: failing_at_def stocked_def empty_world_def)
    ultimately show ?thesis by simp
  qed
  have e1: "history stocked = []" "collection stocked = shelf"
    "\<And>n. history (failing_at n) = []" "\<And>n. collection (failing_at n) = shelf"
    "getUpdate (by_kind ''x'') = [(''name'', JStr ''z'')]"
    by (simp_all add: failing_at_def stocked_def empty_world_def by_kind_def)
  have e2: "filter (\<lambda>s. \<not> matches (by_kind ''x'') s) shelf = [shelf ! 1]"
    by (simp add: by_kind_def shelf_def matches_def toObject_def hydrate_def)
  from C4_bulk_entries [of stocked "by_kind ''x''" "''Widget''" 0 undefined] h1
  have a: "fst (deleteMany ''Widget'' (by_kind ''x'') stocked) = Inr ()"
    "map snd (history (snd (deleteMany ''Widget'' (by_kind ''x'') stocked))) =
       map (hardDelete_entry ''Widget'' stocked) [hydrate 0 (shelf ! 0), hydrate 0 (shelf ! 2)]"
    "collection (snd (deleteMany ''Widget'' (by_kind ''x'') stocked)) = [shelf ! 1]"
    by (simp_all add: find_docs_by_kind e1 e2 comp_def)
  from C4_bulk_entries [of "failing_at 1" "by_kind ''x''" "''Widget''" 2
      "StorageError ''history store down''"] h2
  have b: "fst (updateMany ''Widget'' (by_kind ''x'') (failing_at 1)) =
       Inl (StorageError ''history store down'')"
    "map snd (history (snd (updateMany ''Widget'' (by_kind ''x'') (failing_at 1)))) =
       [update_entry ''Widget'' (failing_at 1) [(''name'', JStr ''z'')] (hydrate 0 (shelf ! 0))]"
    "collection (snd (updateMany ''Widget'' (by_kind ''x'') (failing_at 1))) = shelf"
    by (simp_all add: find_docs_by_kind e1 comp_def)
  from h1 h2 a b show ?thesis
    by (simp add: find_docs_by_kind)
qed

section \<open>Hard delete: the claims\<close>

text \<open>
  What holds of a hard delete. An instance hard delete that completes adds exactly one
  entry: action HardDelete, empty changes, and as snapshot the full plain state of the
  document, which is not empty. A hard delete by criteria that completes and has a match
  adds exactly one such entry for the entity the hook fetched; when the query has no sort
  option, that entity is the stored entity the host then removes.
\<close>

lemma hard_delete_entry:
  "(fst (deleteOne mn d w) = Inr u \<longrightarrow>
      (\<exists>e. history (snd (deleteOne mn d w)) = history w @ [(writer (db d) w, e)] \<and>
            action e = HardDelete \<and> changes e = [] \<and> originalId e = doc_id d \<and>
            snapshot e = Some (toObject d) \<and> toObject d \<noteq> []) \<and>
      collection (snd (deleteOne mn d w)) = filter (\<lambda>s. fst s \<noteq> doc_id d) (collection w)) \<and>
   (fst (findOneAndDelete mn q w) = Inr u \<longrightarrow> findOne q w = Some d' \<longrightarrow>
      (\<exists>e. history (snd (findOneAndDelete mn q w)) = history w @ [(writer (db d') w, e)] \<and>
            action e = HardDelete \<and> changes e = [] \<and> originalId e = doc_id d' \<and>
            snapshot e = Some (toObject d') \<and> toObject d' \<noteq> []) \<and>
      (q_sort q = None \<longrightarrow>
         (\<exists>pre s post. collection w = pre @ s # post \<and> d' = hydrate (q_db q) s \<and>
            collection (snd (findOneAndDelete mn q w)) = pre @ post)))"
proof (intro conjI impI)
  assume a: "fst (deleteOne mn d w) = Inr u"
  show "\<exists>e. history (snd (deleteOne mn d w)) = history w @ [(writer (db d) w, e)] \<and>
            action e = HardDelete \<and> changes e = [] \<and> originalId e = doc_id d \<and>
            snapshot e = Some (toObject d) \<and> toObject d \<noteq> []"
    using deleteOne_ok(1) [OF a]
    by (intro exI [of _ "hardDelete_entry mn w d"])
       (simp add: hardDelete_entry_def entry_def toObject_nonempty)
  show "collection (snd (deleteOne mn d w)) = filter (\<lambda>s. fst s \<noteq> doc_id d) (collection w)"
    by (rule deleteOne_ok(2) [OF a])
next
  assume a: "fst (findOneAndDelete mn q w) = Inr u" and b: "findOne q w = Some d'"
  show "\<exists>e. history (snd (findOneAndDelete mn q w)) = history w @ [(writer (db d') w, e)] \<and>
            action e = HardDelete \<and> changes e = [] \<and> originalId e = doc_id d' \<and>
            snapshot e = Some (toObject d') \<and> toObject d' \<noteq> []"
    using findOneAndDelete_ok(1) [OF a b]
    by (intro exI [of _ "hardDelete_entry mn w d'"])
       (simp add: hardDelete_entry_def entry_def toObject_nonempty)
next
  assume a: "fst (findOneAndDelete mn q w) = Inr u" and b: "findOne q w = Some d'"
    and n: "q_sort q = None"
  from findOne_Some [OF b] obtain pre s post where
    c: "collection w = pre @ s # post" "\<forall>x\<in>set pre. \<not> matches q x" "matches q s"
       "d' = hydrate (q_db q) s"
    by blast
  note p = host_pick_unsorted [OF n c(1) c(2) c(3)]
  have "collection (snd (findOneAndDelete mn q w)) = pre @ post"
    using findOneAndDelete_ok(2) [OF a b] c(1) p by (simp add: remove1_split)
  with c show "\<exists>pre s post. collection w = pre @ s # post \<and> d' = hydrate (q_db q) s \<and>
            collection (snd (findOneAndDelete mn q w)) = pre @ post"
    by blast
qed

text \<open>
  C3 says that every entity deleted on the instance pathway or by criteria has exactly one
  HardDelete entry, with empty changes and a snapshot equal to that entity's state just
  before removal. The code does not do this for a delete by criteria whose query has a
  sort option: the hook fetches with the criteria alone (line 126), the host removes the
  first match in the query's order. On the shelf, deleting the newest entity of kind x
  completes, writes one entry about entity 1 with the snapshot of entity 1, and removes
  entity 3, which has no entry; entity 1 stays stored.
\<close>

theorem C3_sorted_delete_audits_another_entity:
  "fst (findOneAndDelete ''Widget'' (newest_first ''x'') stocked) = Inr () \<and>
   written stocked (snd (findOneAndDelete ''Widget'' (newest_first ''x'') stocked)) =
     [hardDelete_entry ''Widget'' stocked stored_widget] \<and>
   originalId (hardDelete_entry ''Widget'' stocked stored_widget) = 1 \<and>
   snapshot (hardDelete_entry ''Widget'' stocked stored_widget) =
     Some [(''_id'', JId 1), (''name'', JStr ''a''), (''kind'', JStr ''x'')] \<and>
   host_pick (newest_first ''x'') stocked =
     Some (3, [(''name'', JStr ''c''), (''kind'', JStr ''x'')]) \<and>
   collection stocked =
     [(1, [(''name'', JStr ''a''), (''kind'', JStr ''x'')]),
      (2, [(''name'', JStr ''b''), (''kind'', JStr ''y'')]),
      (3, [(''name'', JStr ''c''), (''kind'', JStr ''x'')])] \<and>
   collection (snd (findOneAndDelete ''Widget'' (newest_first ''x'') stocked)) =
     [(1, [(''name'', JStr ''a''), (''kind'', JStr ''x'')]),
      (2, [(''name'', JStr ''b''), (''kind'', JStr ''y'')])]"
  by (simp add: stored_widget_def hardDelete_entry_def entry_def written_def
        sample_defs query_defs run_defs)

text \<open>
  C10. When the criteria of an update or delete by criteria match no entity, the hook
  writes no entry and completes without error, leaving the state as it is, and the
  operation is the host's operation on that state.
\<close>

theorem C10_no_match_no_entry:
  assumes "findOne q w = None"
  shows "pre_findOneAndDelete mn q w = (Inr (), w) \<and>
         pre_findOneAndUpdate mn q w = (Inr (), w) \<and>
         findOneAndDelete mn q w = primary_findOneAndDelete q w \<and>
         findOneAndUpdate mn q w = primary_findOneAndUpdate q w \<and>
         history (snd (findOneAndDelete mn q w)) = history w \<and>
         history (snd (findOneAndUpdate mn q w)) = history w \<and>
         fst (findOneAndDelete mn q w) = Inr () \<and>
         fst (findOneAndUpdate mn q w) = Inr ()"
  using assms
  by (simp add: query_defs with_pre_def Let_def)

theorem C10_no_match_no_entry_witness:
  "findOne (by_kind ''w'') stocked = None \<and>
   pre_findOneAndDelete ''Widget'' (by_kind ''w'') stocked = (Inr (), stocked) \<and>
   pre_findOneAndUpdate ''Widget'' (by_kind ''w'') stocked = (Inr (), stocked) \<and>
   findOneAndDelete ''Widget'' (by_kind ''w'') stocked = primary_findOneAndDelete (by_kind ''w'') stocked \<and>
   findOneAndUpdate ''Widget'' (by_kind ''w'') stocked = primary_findOneAndUpdate (by_kind ''w'') stocked \<and>
   history (snd (findOneAndDelete ''Widget'' (by_kind ''w'') stocked)) = history stocked \<and>
   history (snd (findOneAndUpdate ''Widget'' (by_kind ''w'') stocked)) = history stocked \<and>
   fst (findOneAndDelete ''Widget'' (by_kind ''w'') stocked) = Inr () \<and>
   fst (findOneAndUpdate ''Widget'' (by_kind ''w'') stocked) = Inr ()"
proof -
  have h: "findOne (by_kind ''w'') stocked = None"
    by (simp add: sample_defs toObject_def)
  from C10_no_match_no_entry [OF h, of "''Widget''"] h show ?thesis by blast
qed

section \<open>Update by criteria: the claim\<close>

text \<open>
  What holds of the entries of an update. Every entry that an update by criteria or a
  bulk update writes has action Update, the patch of the query as its changes, unchanged
  whatever the patch holds, and as its snapshot the plain state of a fetched entity with
  the patch spread over it; a key of a well-formed patch has the patch's value there.
\<close>

lemma update_entries_contents:
  "(\<forall>e\<in>set (written w (snd (findOneAndUpdate mn q w))).
      action e = Update \<and> changes e = getUpdate q \<and>
      (\<exists>d. findOne q w = Some d \<and> originalId e = doc_id d \<and>
           snapshot e = Some (spread (toObject d) (getUpdate q)))) \<and>
   (\<forall>e\<in>set (written w (snd (updateMany mn q w))).
      action e = Update \<and> changes e = getUpdate q \<and>
      (\<exists>d\<in>set (find_docs q w). originalId e = doc_id d \<and>
           snapshot e = Some (spread (toObject d) (getUpdate q)))) \<and>
   (wf_obj patch \<longrightarrow>
      map_of (spread state patch) k =
        (case map_of patch k of Some v \<Rightarrow> Some v | None \<Rightarrow> map_of state k))"
proof (intro conjI ballI impI)
  fix e assume "e \<in> set (written w (snd (findOneAndUpdate mn q w)))"
  then obtain d where "findOne q w = Some d" and "e = update_entry mn w (getUpdate q) d"
    unfolding findOneAndUpdate_written
    by (cases "findOne q w"; cases "write_fault w (writes w)"; auto)
  then show "action e = Update" and "changes e = getUpdate q"
    and "\<exists>d. findOne q w = Some d \<and> originalId e = doc_id d \<and>
           snapshot e = Some (spread (toObject d) (getUpdate q))"
    by (simp_all add: update_entry_def entry_def)
next
  fix e assume a: "e \<in> set (written w (snd (updateMany mn q w)))"
  from updateMany_written [of q w mn] obtain n where
    "written w (snd (updateMany mn q w)) = map (update_entry mn w (getUpdate q)) (take n (find_docs q w))"
    by blast
  with a obtain d where "d \<in> set (take n (find_docs q w))" and e: "e = update_entry mn w (getUpdate q) d"
    by auto
  then have d: "d \<in> set (find_docs q w)" by (meson in_set_takeD)
  from e show "action e = Update" and "changes e = getUpdate q"
    by (simp_all add: update_entry_def entry_def)
  from e d show "\<exists>d\<in>set (find_docs q w). originalId e = doc_id d \<and>
           snapshot e = Some (spread (toObject d) (getUpdate q))"
    by (auto simp: update_entry_def entry_def)
next
  assume "wf_obj patch"
  then show "map_of (spread state patch) k =
        (case map_of patch k of Some v \<Rightarrow> Some v | None \<Rightarrow> map_of state k)"
    by (rule map_of_spread_wf)
qed

text \<open>
  The entries are written: an update by criteria with a match whose audit write succeeds
  writes exactly the entry of the entity the hook fetched, and a bulk update whose writes
  succeed writes exactly the entries of the matches, in their order. When the query has no
  sort option, the entity the hook fetched is the stored entity the host then patches.
\<close>

lemma findOneAndUpdate_collection:
  assumes "write_fault w (writes w) = None" and "findOne q w = Some d"
  shows "collection (snd (findOneAndUpdate mn q w)) =
           (case host_pick q w of
              None \<Rightarrow> collection w
            | Some s \<Rightarrow> replace_first s (apply_patch (getUpdate q) s) (collection w))"
  using assms
  by (simp add: findOneAndUpdate_def with_pre_cases pre_findOneAndUpdate_def Let_def
        createHistoryEntry_result primary_findOneAndUpdate_def cong: option.case_cong)

lemma update_entries_exact:
  "(findOne q w = Some d \<longrightarrow> write_fault w (writes w) = None \<longrightarrow>
      written w (snd (findOneAndUpdate mn q w)) = [update_entry mn w (getUpdate q) d] \<and>
      (q_sort q = None \<longrightarrow>
         (\<exists>pre s post. collection w = pre @ s # post \<and> d = hydrate (q_db q) s \<and>
            collection (snd (findOneAndUpdate mn q w)) =
              pre @ apply_patch (getUpdate q) s # post))) \<and>
   (writes_ok w (length (find_docs q w)) \<longrightarrow>
      written w (snd (updateMany mn q w)) =
        map (update_entry mn w (getUpdate q)) (find_docs q w)) \<and>
   action (update_entry mn w upd d) = Update \<and>
   changes (update_entry mn w upd d) = upd \<and>
   originalId (update_entry mn w upd d) = doc_id d \<and>
   snapshot (update_entry mn w upd d) = Some (spread (toObject d) upd)"
proof (intro conjI impI)
  assume m: "findOne q w = Some d" and ok: "write_fault w (writes w) = None"
  show "written w (snd (findOneAndUpdate mn q w)) = [update_entry mn w (getUpdate q) d]"
    unfolding findOneAndUpdate_written using m ok by simp
next
  assume m: "findOne q w = Some d" and ok: "write_fault w (writes w) = None"
    and n: "q_sort q = None"
  from findOne_Some [OF m] obtain pre s post where
    c: "collection w = pre @ s # post" "\<forall>x\<in>set pre. \<not> matches q x" "matches q s"
       "d = hydrate (q_db q) s"
    by blast
  note p = host_pick_unsorted [OF n c(1) c(2) c(3)]
  have "collection (snd (findOneAndUpdate mn q w)) = pre @ apply_patch (getUpdate q) s # post"
    using findOneAndUpdate_collection [OF ok m, of mn] c(1) p
    by (simp add: replace_first_split)
  with c show "\<exists>pre s post. collection w = pre @ s # post \<and> d = hydrate (q_db q) s \<and>
      collection (snd (findOneAndUpdate mn q w)) = pre @ apply_patch (getUpdate q) s # post"
    by blast
next
  assume ok: "writes_ok w (length (find_docs q w))"
  show "written w (snd (updateMany mn q w)) =
      map (update_entry mn w (getUpdate q)) (find_docs q w)"
    using updateMany_ok [OF ok, of mn] by (simp add: written_def comp_def)
qed (simp_all add: update_entry_def entry_def)

text \<open>
  C7 says that the entry of every update by criteria has the patch as its changes and, as
  its snapshot, the entity's current state merged with the patch. The changes are the
  patch, but for a query with a sort option the snapshot is not of the entity that is
  updated: the hook fetches with the criteria alone (line 135), the host patches the first
  match in the query's order. On the shelf, renaming the newest entity of kind x completes
  and writes one entry about entity 1, with the state of entity 1 under the patch as its
  snapshot, while the host patches entity 3, which has no entry; entity 1 stays as it was.
\<close>

theorem C7_sorted_update_snapshots_another_entity:
  "fst (findOneAndUpdate ''Widget'' (newest_first ''x'') stocked) = Inr () \<and>
   getUpdate (newest_first ''x'') = [(''name'', JStr ''z'')] \<and>
   written stocked (snd (findOneAndUpdate ''Widget'' (newest_first ''x'') stocked)) =
     [update_entry ''Widget'' stocked [(''name'', JStr ''z'')] stored_widget] \<and>
   originalId (update_entry ''Widget'' stocked [(''name'', JStr ''z'')] stored_widget) = 1 \<and>
   changes (update_entry ''Widget'' stocked [(''name'', JStr ''z'')] stored_widget) =
     [(''name'', JStr ''z'')] \<and>
   snapshot (update_entry ''Widget'' stocked [(''name'', JStr ''z'')] stored_widget) =
     Some [(''_id'', JId 1), (''name'', JStr ''z''), (''kind'', JStr ''x'')] \<and>
   host_pick (newest_first ''x'') stocked =
     Some (3, [(''name'', JStr ''c''), (''kind'', JStr ''x'')]) \<and>
   collection stocked =
     [(1, [(''name'', JStr ''a''), (''kind'', JStr ''x'')]),
      (2, [(''name'', JStr ''b''), (''kind'', JStr ''y'')]),
      (3, [(''name'', JStr ''c''), (''kind'', JStr ''x'')])] \<and>
   collection (snd (findOneAndUpdate ''Widget'' (newest_first ''x'') stocked)) =
     [(1, [(''name'', JStr ''a''), (''kind'', JStr ''x'')]),
      (2, [(''name'', JStr ''b''), (''kind'', JStr ''y'')]),
      (3, [(''name'', JStr ''z''), (''kind'', JStr ''x'')])]"
  by (simp add: stored_widget_def update_entry_def entry_def written_def spread_def
        apply_patch_def sample_defs query_defs run_defs)

section \<open>Soft delete and restore: lemmas\<close>

lemma case_outcome:
  "(case p of (Inl err, w') \<Rightarrow> f err w' | (Inr u, w') \<Rightarrow> g u w') =
     (case fst p of Inl err \<Rightarrow> f err (snd p) | Inr u \<Rightarrow> g u (snd p))"
  by (simp split: prod.split sum.split)

lemma writer_frame [simp]:
  "writer c (w\<lparr>collection := x\<rparr>) = writer c w"
  by (simp add: writer_def getModel_def connection_model_def Let_def split_beta)

lemma pre_save_eq:
  "pre_save mn d w =
     createHistoryEntry mn d (if isNew d then Create else Update)
       (if isNew d then toObject d
        else fold (\<lambda>path acc. set_key acc path (get d path)) (modifiedPaths d) [])
       (Some (toObject d)) w"
  by (simp add: pre_save_def Let_def)

lemma save_fault:
  assumes "write_fault w (writes w) = Some err"
  shows "fst (save mn d w) = Inl err"
    and "history (snd (save mn d w)) = history w"
    and "collection (snd (save mn d w)) = collection w"
  using assms
  by (simp_all add: save_def with_pre_cases pre_save_eq createHistoryEntry_result
        createHistoryEntry_history)

lemma save_done:
  assumes "write_fault w (writes w) = None"
  shows "fst (save mn d w) = Inr (d\<lparr>isNew := False, modifiedPaths := []\<rparr>)"
    and "\<exists>e. history (snd (save mn d w)) = history w @ [(writer (db d) w, e)] \<and>
             action e = (if isNew d then Create else Update) \<and> snapshot e = Some (toObject d)"
    and "writes (snd (save mn d w)) = Suc (writes w)"
    and "write_fault (snd (save mn d w)) = write_fault w"
    and "async_storage (snd (save mn d w)) = async_storage w"
    and "writer (db d) (snd (save mn d w)) = writer (db d) w"
    and "collection (snd (save mn d w)) =
           (if isNew d then collection w @ [(doc_id d, doc_fields d)]
            else map (\<lambda>s. if fst s = doc_id d then (doc_id d, doc_fields d) else s) (collection w))"
proof -
  let ?w0 = "snd (pre_save mn d w)"
  have s: "save mn d w = primary_save d ?w0"
    using assms by (simp add: save_def with_pre_cases pre_save_eq createHistoryEntry_result)
  show "fst (save mn d w) = Inr (d\<lparr>isNew := False, modifiedPaths := []\<rparr>)"
    unfolding s by (simp add: primary_save_def)
  show "\<exists>e. history (snd (save mn d w)) = history w @ [(writer (db d) w, e)] \<and>
             action e = (if isNew d then Create else Update) \<and> snapshot e = Some (toObject d)"
    unfolding s using assms
    by (simp add: primary_save_def pre_save_eq createHistoryEntry_history entry_def)
  show "writes (snd (save mn d w)) = Suc (writes w)"
    and "write_fault (snd (save mn d w)) = write_fault w"
    and "async_storage (snd (save mn d w)) = async_storage w"
    unfolding s by (simp_all add: primary_save_def pre_save_eq)
  show "writer (db d) (snd (save mn d w)) = writer (db d) w"
    unfolding s by (simp add: primary_save_def pre_save_eq createHistoryEntry_writer)
  show "collection (snd (save mn d w)) =
           (if isNew d then collection w @ [(doc_id d, doc_fields d)]
            else map (\<lambda>s. if fst s = doc_id d then (doc_id d, doc_fields d) else s) (collection w))"
    unfolding s by (simp add: primary_save_def pre_save_eq)
qed

lemma get_deletedAt:
  "get (set_path d ''deletedAt'' v\<lparr>isNew := False, modifiedPaths := []\<rparr>) ''deletedAt'' = v"
  by (simp add: get_def toObject_def set_path_def map_of_set_key)

lemma set_path_frame [simp]:
  "db (set_path d k v) = db d" "doc_id (set_path d k v) = doc_id d"
  "isNew (set_path d k v) = isNew d"
  by (simp_all add: set_path_def)

lemma toObject_flags [simp]:
  "toObject (d\<lparr>isNew := b, modifiedPaths := ps\<rparr>) = toObject d"
  by (simp add: toObject_def)

text \<open>The explicit operation after its save: a tombstone entry for the saved document.\<close>

lemma softDelete_eq:
  "softDelete mn now d w =
     (case fst (save mn (set_path d ''deletedAt'' (JDate now)) w) of
        Inl err \<Rightarrow> (Inl err, snd (save mn (set_path d ''deletedAt'' (JDate now)) w))
      | Inr d2 \<Rightarrow>
          (case fst (createHistoryEntry mn d2 SoftDelete [(''deletedAt'', get d2 ''deletedAt'')]
                       (Some (toObject d2)) (snd (save mn (set_path d ''deletedAt'' (JDate now)) w))) of
             Inl err \<Rightarrow> (Inl err, snd (createHistoryEntry mn d2 SoftDelete
                         [(''deletedAt'', get d2 ''deletedAt'')] (Some (toObject d2))
                         (snd (save mn (set_path d ''deletedAt'' (JDate now)) w)))) 
           | Inr u \<Rightarrow> (Inr d2, snd (createHistoryEntry mn d2 SoftDelete
                         [(''deletedAt'', get d2 ''deletedAt'')] (Some (toObject d2))
                         (snd (save mn (set_path d ''deletedAt'' (JDate now)) w)))))) "
  by (simp add: softDelete_def Let_def case_outcome split: sum.split)

lemma restore_eq:
  "restore mn d w =
     (case fst (save mn (set_path d ''deletedAt'' JNull) w) of
        Inl err \<Rightarrow> (Inl err, snd (save mn (set_path d ''deletedAt'' JNull) w))
      | Inr d2 \<Rightarrow>
          (case fst (createHistoryEntry mn d2 Restore [(''deletedAt'', JNull)]
                       (Some (toObject d2)) (snd (save mn (set_path d ''deletedAt'' JNull) w))) of
             Inl err \<Rightarrow> (Inl err, snd (createHistoryEntry mn d2 Restore
                         [(''deletedAt'', JNull)] (Some (toObject d2))
                         (snd (save mn (set_path d ''deletedAt'' JNull) w)))) 
           | Inr u \<Rightarrow> (Inr d2, snd (createHistoryEntry mn d2 Restore
                         [(''deletedAt'', JNull)] (Some (toObject d2))
                         (snd (save mn (set_path d ''deletedAt'' JNull) w)))))) "
  by (simp add: restore_def Let_def case_outcome split: sum.split)

lemma softDelete_first_fault:
  assumes "write_fault w (writes w) = Some err"
  shows "fst (softDelete mn now d w) = Inl err"
    and "history (snd (softDelete mn now d w)) = history w"
    and "collection (snd (softDelete mn now d w)) = collection w"
  unfolding softDelete_eq using save_fault [OF assms, of mn "set_path d ''deletedAt'' (JDate now)"]
  by simp_all

lemma restore_first_fault:
  assumes "write_fault w (writes w) = Some err"
  shows "fst (restore mn d w) = Inl err"
    and "history (snd (restore mn d w)) = history w"
    and "collection (snd (restore mn d w)) = collection w"
  unfolding restore_eq using save_fault [OF assms, of mn "set_path d ''deletedAt'' JNull"]
  by simp_all

lemma softDelete_second_fault:
  assumes "write_fault w (writes w) = None" and "write_fault w (Suc (writes w)) = Some err"
  shows "fst (softDelete mn now d w) = Inl err"
    and "collection (snd (softDelete mn now d w)) =
           collection (snd (save mn (set_path d ''deletedAt'' (JDate now)) w))"
  unfolding softDelete_eq
  using save_done(1,3,4) [OF assms(1), of mn "set_path d ''deletedAt'' (JDate now)"] assms(2)
  by (simp_all add: createHistoryEntry_result)

lemma restore_second_fault:
  assumes "write_fault w (writes w) = None" and "write_fault w (Suc (writes w)) = Some err"
  shows "fst (restore mn d w) = Inl err"
    and "collection (snd (restore mn d w)) =
           collection (snd (save mn (set_path d ''deletedAt'' JNull) w))"
  unfolding restore_eq
  using save_done(1,3,4) [OF assms(1), of mn "set_path d ''deletedAt'' JNull"] assms(2)
  by (simp_all add: createHistoryEntry_result)

lemma softDelete_done:
  assumes "fst (softDelete mn now d w) = Inr d'"
  shows "write_fault w (writes w) = None" and "write_fault w (Suc (writes w)) = None"
    and "d' = set_path d ''deletedAt'' (JDate now)\<lparr>isNew := False, modifiedPaths := []\<rparr>"
proof -
  show a: "write_fault w (writes w) = None"
    using assms softDelete_first_fault(1) [of w _ mn now d]
    by (cases "write_fault w (writes w)") simp_all
  show b: "write_fault w (Suc (writes w)) = None"
    using assms softDelete_second_fault(1) [OF a, of _ mn now d]
    by (cases "write_fault w (Suc (writes w))") simp_all
  show "d' = set_path d ''deletedAt'' (JDate now)\<lparr>isNew := False, modifiedPaths := []\<rparr>"
    using assms unfolding softDelete_eq
    using save_done(1,3,4) [OF a, of mn "set_path d ''deletedAt'' (JDate now)"] b
    by (simp add: createHistoryEntry_result)
qed

lemma restore_done:
  assumes "fst (restore mn d w) = Inr d'"
  shows "write_fault w (writes w) = None" and "write_fault w (Suc (writes w)) = None"
    and "d' = set_path d ''deletedAt'' JNull\<lparr>isNew := False, modifiedPaths := []\<rparr>"
proof -
  show a: "write_fault w (writes w) = None"
    using assms restore_first_fault(1) [of w _ mn d]
    by (cases "write_fault w (writes w)") simp_all
  show b: "write_fault w (Suc (writes w)) = None"
    using assms restore_second_fault(1) [OF a, of _ mn d]
    by (cases "write_fault w (Suc (writes w))") simp_all
  show "d' = set_path d ''deletedAt'' JNull\<lparr>isNew := False, modifiedPaths := []\<rparr>"
    using assms unfolding restore_eq
    using save_done(1,3,4) [OF a, of mn "set_path d ''deletedAt'' JNull"] b
    by (simp add: createHistoryEntry_result)
qed

lemma softDelete_history:
  assumes "fst (softDelete mn now d w) = Inr d'"
  shows "\<exists>e1 e2. history (snd (softDelete mn now d w)) =
             history w @ [(writer (db d) w, e1), (writer (db d) w, e2)] \<and>
           action e1 = (if isNew d then Create else Update) \<and>
           snapshot e1 = Some (toObject d') \<and>
           action e2 = SoftDelete \<and> changes e2 = [(''deletedAt'', JDate now)] \<and>
           snapshot e2 = Some (toObject d')"
proof -
  let ?d1 = "set_path d ''deletedAt'' (JDate now)"
  let ?w1 = "snd (save mn ?d1 w)"
  note a = softDelete_done(1) [OF assms] and b = softDelete_done(2) [OF assms]
    and d' = softDelete_done(3) [OF assms]
  from save_done(2) [OF a, of mn ?d1] obtain e1 where
    h1: "history ?w1 = history w @ [(writer (db d) w, e1)]"
    and a1: "action e1 = (if isNew d then Create else Update)"
    and s1: "snapshot e1 = Some (toObject ?d1)"
    by auto
  let ?e2 = "entry mn ?w1 d' SoftDelete [(''deletedAt'', JDate now)] (Some (toObject d'))"
  have w1: "write_fault ?w1 (writes ?w1) = None"
    using save_done(3,4) [OF a, of mn ?d1] b by simp
  have wr: "writer (db d') ?w1 = writer (db d) w"
    using save_done(6) [OF a, where mn = mn and d = ?d1] by (simp add: d')
  have "history (snd (softDelete mn now d w)) = history ?w1 @ [(writer (db d') ?w1, ?e2)]"
    unfolding softDelete_eq
    using save_done(1) [OF a, of mn ?d1] w1
    by (simp add: createHistoryEntry_result createHistoryEntry_history d' get_deletedAt)
  then have "history (snd (softDelete mn now d w)) =
      history w @ [(writer (db d) w, e1), (writer (db d) w, ?e2)]"
    by (simp add: h1 wr)
  moreover have "snapshot e1 = Some (toObject d')"
    using s1 by (simp add: d')
  ultimately show ?thesis
    using a1 by (intro exI [of _ e1] exI [of _ ?e2]) (simp add: entry_def)
qed

lemma restore_history:
  assumes "fst (restore mn d w) = Inr d'"
  shows "\<exists>e1 e2. history (snd (restore mn d w)) =
             history w @ [(writer (db d) w, e1), (writer (db d) w, e2)] \<and>
           action e1 = (if isNew d then Create else Update) \<and>
           snapshot e1 = Some (toObject d') \<and>
           action e2 = Restore \<and> changes e2 = [(''deletedAt'', JNull)] \<and>
           snapshot e2 = Some (toObject d')"
proof -
  let ?d1 = "set_path d ''deletedAt'' JNull"
  let ?w1 = "snd (save mn ?d1 w)"
  note a = restore_done(1) [OF assms] and b = restore_done(2) [OF assms]
    and d' = restore_done(3) [OF assms]
  from save_done(2) [OF a, of mn ?d1] obtain e1 where
    h1: "history ?w1 = history w @ [(writer (db d) w, e1)]"
    and a1: "action e1 = (if isNew d then Create else Update)"
    and s1: "snapshot e1 = Some (toObject ?d1)"
    by auto
  let ?e2 = "entry mn ?w1 d' Restore [(''deletedAt'', JNull)] (Some (toObject d'))"
  have w1: "write_fault ?w1 (writes ?w1) = None"
    using save_done(3,4) [OF a, of mn ?d1] b by simp
  have wr: "writer (db d') ?w1 = writer (db d) w"
    using save_done(6) [OF a, where mn = mn and d = ?d1] by (simp add: d')
  have "history (snd (restore mn d w)) = history ?w1 @ [(writer (db d') ?w1, ?e2)]"
    unfolding restore_eq
    using save_done(1) [OF a, of mn ?d1] w1
    by (simp add: createHistoryEntry_result createHistoryEntry_history d')
  then have "history (snd (restore mn d w)) =
      history w @ [(writer (db d) w, e1), (writer (db d) w, ?e2)]"
    by (simp add: h1 wr)
  moreover have "snapshot e1 = Some (toObject d')"
    using s1 by (simp add: d')
  ultimately show ?thesis
    using a1 by (intro exI [of _ e1] exI [of _ ?e2]) (simp add: entry_def)
qed

lemmas tombstone_defs = softDelete_def restore_def set_path_def written_def

section \<open>Soft delete and restore: the claim\<close>

text \<open>
  C5, as the code has it. A soft delete that completes adds exactly two entries to the
  history. The first is the entry of the save pathway: its action is Update for a
  document that is not new and Create for a new one. The second has action SoftDelete and
  changes that are exactly the tombstone field with the date just set, which is not
  null. A restore that completes is the mirror: the entry of the save pathway, then an
  entry with action Restore and changes that are exactly the tombstone field with null.
  The snapshot of each entry is the full plain state of the document.
\<close>

theorem C5_two_entries:
  "(fst (softDelete mn now d w) = Inr d' \<longrightarrow>
      (\<exists>e1 e2. history (snd (softDelete mn now d w)) =
                  history w @ [(writer (db d) w, e1), (writer (db d) w, e2)] \<and>
                action e1 = (if isNew d then Create else Update) \<and>
                snapshot e1 = Some (toObject d') \<and>
                action e2 = SoftDelete \<and> changes e2 = [(''deletedAt'', JDate now)] \<and>
                snapshot e2 = Some (toObject d'))) \<and>
   (fst (restore mn d w) = Inr d' \<longrightarrow>
      (\<exists>e1 e2. history (snd (restore mn d w)) =
                  history w @ [(writer (db d) w, e1), (writer (db d) w, e2)] \<and>
                action e1 = (if isNew d then Create else Update) \<and>
                snapshot e1 = Some (toObject d') \<and>
                action e2 = Restore \<and> changes e2 = [(''deletedAt'', JNull)] \<and>
                snapshot e2 = Some (toObject d')))"
  using softDelete_history restore_history by blast

theorem C5_two_entries_witness:
  "fst (softDelete ''Widget'' 7 stored_widget stocked) =
     Inr (stored_widget\<lparr>doc_fields := [(''name'', JStr ''a''), (''kind'', JStr ''x''),
                                        (''deletedAt'', JDate 7)]\<rparr>) \<and>
   fst (restore ''Widget'' stored_widget stocked) =
     Inr (stored_widget\<lparr>doc_fields := [(''name'', JStr ''a''), (''kind'', JStr ''x''),
                                        (''deletedAt'', JNull)]\<rparr>) \<and>
   (\<exists>e1 e2. history (snd (softDelete ''Widget'' 7 stored_widget stocked)) =
               history stocked @ [(writer (db stored_widget) stocked, e1),
                                  (writer (db stored_widget) stocked, e2)] \<and>
             action e1 = (if isNew stored_widget then Create else Update) \<and>
             snapshot e1 = Some (toObject (stored_widget\<lparr>doc_fields :=
                [(''name'', JStr ''a''), (''kind'', JStr ''x''), (''deletedAt'', JDate 7)]\<rparr>)) \<and>
             action e2 = SoftDelete \<and> changes e2 = [(''deletedAt'', JDate 7)] \<and>
             snapshot e2 = Some (toObject (stored_widget\<lparr>doc_fields :=
                [(''name'', JStr ''a''), (''kind'', JStr ''x''), (''deletedAt'', JDate 7)]\<rparr>))) \<and>
   (\<exists>e1 e2. history (snd (restore ''Widget'' stored_widget stocked)) =
               history stocked @ [(writer (db stored_widget) stocked, e1),
                                  (writer (db stored_widget) stocked, e2)] \<and>
             action e1 = (if isNew stored_widget then Create else Update) \<and>
             snapshot e1 = Some (toObject (stored_widget\<lparr>doc_fields :=
                [(''name'', JStr ''a''), (''kind'', JStr ''x''), (''deletedAt'', JNull)]\<rparr>)) \<and>
             action e2 = Restore \<and> changes e2 = [(''deletedAt'', JNull)] \<and>
             snapshot e2 = Some (toObject (stored_widget\<lparr>doc_fields :=
                [(''name'', JStr ''a''), (''kind'', JStr ''x''), (''deletedAt'', JNull)]\<rparr>))) \<and>
   \<not> isNew stored_widget"
proof -
  have h1: "fst (softDelete ''Widget'' 7 stored_widget stocked) =
     Inr (stored_widget\<lparr>doc_fields := [(''name'', JStr ''a''), (''kind'', JStr ''x''),
                                        (''deletedAt'', JDate 7)]\<rparr>)"
    by (simp add: stored_widget_def sample_defs tombstone_defs run_defs)
  have h2: "fst (restore ''Widget'' stored_widget stocked) =
     Inr (stored_widget\<lparr>doc_fields := [(''name'', JStr ''a''), (''kind'', JStr ''x''),
                                        (''deletedAt'', JNull)]\<rparr>)"
    by (simp add: stored_widget_def sample_defs tombstone_defs run_defs)
  have h3: "\<not> isNew stored_widget"
    by (simp add: stored_widget_def hydrate_def)
  from C5_two_entries [of "''Widget''" 7 stored_widget stocked, THEN conjunct1, rule_format, OF h1]
    C5_two_entries [of "''Widget''" 7 stored_widget stocked, THEN conjunct2, rule_format, OF h2]
    h1 h2 h3
  show ?thesis by blast
qed

text \<open>
  C5, as it is stated, fails on a new document: its soft delete completes and writes a
  Create entry and a SoftDelete entry, and no Update entry.
\<close>

theorem C5_new_document_counterexample:
  "fst (softDelete ''Widget'' 7 widget empty_world) =
     Inr (widget\<lparr>isNew := False, doc_fields := [(''name'', JStr ''a''), (''deletedAt'', JDate 7)],
                modifiedPaths := []\<rparr>) \<and>
   map action (written empty_world (snd (softDelete ''Widget'' 7 widget empty_world))) =
     [Create, SoftDelete] \<and>
   Update \<notin> set (map action (written empty_world (snd (softDelete ''Widget'' 7 widget empty_world))))"
  by (simp add: widget_def tombstone_defs run_defs)

section \<open>Failing audit writes: the claim\<close>

lemma deleteOne_fault:
  assumes "write_fault w (writes w) = Some err"
  shows "fst (deleteOne mn d w) = Inl err \<and> history (snd (deleteOne mn d w)) = history w \<and>
         collection (snd (deleteOne mn d w)) = collection w"
  using assms
  by (simp add: deleteOne_def with_pre_cases pre_deleteOne_def createHistoryEntry_result
        createHistoryEntry_history)

lemma findOneAndDelete_fault:
  assumes "write_fault w (writes w) = Some err" and "findOne q w = Some d"
  shows "fst (findOneAndDelete mn q w) = Inl err \<and>
         history (snd (findOneAndDelete mn q w)) = history w \<and>
         collection (snd (findOneAndDelete mn q w)) = collection w"
  using assms
  by (simp add: findOneAndDelete_def with_pre_cases pre_findOneAndDelete_def
        createHistoryEntry_result createHistoryEntry_history)

lemma findOneAndUpdate_fault:
  assumes "write_fault w (writes w) = Some err" and "findOne q w = Some d"
  shows "fst (findOneAndUpdate mn q w) = Inl err \<and>
         history (snd (findOneAndUpdate mn q w)) = history w \<and>
         collection (snd (findOneAndUpdate mn q w)) = collection w"
  using assms
  by (simp add: findOneAndUpdate_def with_pre_cases pre_findOneAndUpdate_def Let_def
        createHistoryEntry_result createHistoryEntry_history)

text \<open>
  C8, as the code has it. When the audit write of an instance save, an instance hard
  delete, or a delete or update by criteria that matches an entity fails, the operation
  ends with the store's own error, and neither the stored entities nor the history have
  changed: the host's operation was not run. The same holds for a soft delete and a
  restore when their first audit write, the one of the save pathway, fails. When that
  write succeeds and the second one, for the SoftDelete or Restore entry, fails, the
  operation still ends with the store's own error, but the stored entities are those the
  save of the tombstone field left.
\<close>

theorem C8_fail_closed:
  "(write_fault w (writes w) = Some err \<longrightarrow>
      fst (save mn d w) = Inl err \<and> history (snd (save mn d w)) = history w \<and>
      collection (snd (save mn d w)) = collection w \<and>
      fst (deleteOne mn d w) = Inl err \<and> history (snd (deleteOne mn d w)) = history w \<and>
      collection (snd (deleteOne mn d w)) = collection w \<and>
      fst (softDelete mn now d w) = Inl err \<and> history (snd (softDelete mn now d w)) = history w \<and>
      collection (snd (softDelete mn now d w)) = collection w \<and>
      fst (restore mn d w) = Inl err \<and> history (snd (restore mn d w)) = history w \<and>
      collection (snd (restore mn d w)) = collection w) \<and>
   (write_fault w (writes w) = Some err \<and> findOne q w = Some d \<longrightarrow>
      fst (findOneAndDelete mn q w) = Inl err \<and>
      history (snd (findOneAndDelete mn q w)) = history w \<and>
      collection (snd (findOneAndDelete mn q w)) = collection w \<and>
      fst (findOneAndUpdate mn q w) = Inl err \<and>
      history (snd (findOneAndUpdate mn q w)) = history w \<and>
      collection (snd (findOneAndUpdate mn q w)) = collection w) \<and>
   (write_fault w (writes w) = None \<and> write_fault w (Suc (writes w)) = Some err \<longrightarrow>
      fst (softDelete mn now d w) = Inl err \<and>
      collection (snd (softDelete mn now d w)) =
        collection (snd (save mn (set_path d ''deletedAt'' (JDate now)) w)) \<and>
      fst (restore mn d w) = Inl err \<and>
      collection (snd (restore mn d w)) =
        collection (snd (save mn (set_path d ''deletedAt'' JNull) w)))"
proof (intro conjI impI)
  assume f: "write_fault w (writes w) = Some err"
  show "fst (save mn d w) = Inl err" and "history (snd (save mn d w)) = history w"
    and "collection (snd (save mn d w)) = collection w"
    by (rule save_fault [OF f])+
  show "fst (deleteOne mn d w) = Inl err" and "history (snd (deleteOne mn d w)) = history w"
    and "collection (snd (deleteOne mn d w)) = collection w"
    using deleteOne_fault [OF f, of mn d] by simp_all
  show "fst (softDelete mn now d w) = Inl err"
    and "history (snd (softDelete mn now d w)) = history w"
    and "collection (snd (softDelete mn now d w)) = collection w"
    by (rule softDelete_first_fault [OF f])+
  show "fst (restore mn d w) = Inl err" and "history (snd (restore mn d w)) = history w"
    and "collection (snd (restore mn d w)) = collection w"
    by (rule restore_first_fault [OF f])+
next
  assume "write_fault w (writes w) = Some err \<and> findOne q w = Some d"
  then have f: "write_fault w (writes w) = Some err" and m: "findOne q w = Some d"
    by simp_all
  show "fst (findOneAndDelete mn q w) = Inl err"
    and "history (snd (findOneAndDelete mn q w)) = history w"
    and "collection (snd (findOneAndDelete mn q w)) = collection w"
    using findOneAndDelete_fault [OF f m, of mn] by simp_all
  show "fst (findOneAndUpdate mn q w) = Inl err"
    and "history (snd (findOneAndUpdate mn q w)) = history w"
    and "collection (snd (findOneAndUpdate mn q w)) = collection w"
    using findOneAndUpdate_fault [OF f m, of mn] by simp_all
next
  assume "write_fault w (writes w) = None \<and> write_fault w (Suc (writes w)) = Some err"
  then have a: "write_fault w (writes w) = None" and b: "write_fault w (Suc (writes w)) = Some err"
    by simp_all
  show "fst (softDelete mn now d w) = Inl err"
    and "collection (snd (softDelete mn now d w)) =
        collection (snd (save mn (set_path d ''deletedAt'' (JDate now)) w))"
    by (rule softDelete_second_fault [OF a b])+
  show "fst (restore mn d w) = Inl err"
    and "collection (snd (restore mn d w)) =
        collection (snd (save mn (set_path d ''deletedAt'' JNull) w))"
    by (rule restore_second_fault [OF a b])+
qed

theorem C8_fail_closed_witness:
  "write_fault (failing_at 0) (writes (failing_at 0)) = Some (StorageError ''history store down'') \<and>
   findOne (by_kind ''x'') (failing_at 0) = Some stored_widget \<and>
   write_fault (failing_at 1) (writes (failing_at 1)) = None \<and>
   write_fault (failing_at 1) (Suc (writes (failing_at 1))) = Some (StorageError ''history store down'') \<and>
   fst (save ''Widget'' widget_renamed (failing_at 0)) = Inl (StorageError ''history store down'') \<and>
   collection (snd (save ''Widget'' widget_renamed (failing_at 0))) = shelf \<and>
   fst (deleteOne ''Widget'' widget_renamed (failing_at 0)) = Inl (StorageError ''history store down'') \<and>
   collection (snd (deleteOne ''Widget'' widget_renamed (failing_at 0))) = shelf \<and>
   fst (softDelete ''Widget'' 7 widget_renamed (failing_at 0)) = Inl (StorageError ''history store down'') \<and>
   collection (snd (softDelete ''Widget'' 7 widget_renamed (failing_at 0))) = shelf \<and>
   fst (restore ''Widget'' widget_renamed (failing_at 0)) = Inl (StorageError ''history store down'') \<and>
   collection (snd (restore ''Widget'' widget_renamed (failing_at 0))) = shelf \<and>
   fst (findOneAndDelete ''Widget'' (by_kind ''x'') (failing_at 0)) =
     Inl (StorageError ''history store down'') \<and>
   collection (snd (findOneAndDelete ''Widget'' (by_kind ''x'') (failing_at 0))) = shelf \<and>
   history (snd (findOneAndDelete ''Widget'' (by_kind ''x'') (failing_at 0))) = [] \<and>
   fst (findOneAndUpdate ''Widget'' (by_kind ''x'') (failing_at 0)) =
     Inl (StorageError ''history store down'') \<and>
   collection (snd (findOneAndUpdate ''Widget'' (by_kind ''x'') (failing_at 0))) = shelf \<and>
   fst (restore ''Widget'' stored_widget (failing_at 1)) = Inl (StorageError ''history store down'') \<and>
   collection (snd (restore ''Widget'' stored_widget (failing_at 1))) =
     collection (snd (save ''Widget'' (set_path stored_widget ''deletedAt'' JNull) (failing_at 1)))"
proof -
  let ?err = "StorageError ''history store down''"
  have h1: "write_fault (failing_at 0) (writes (failing_at 0)) = Some ?err"
    by (simp add: failing_at_def stocked_def empty_world_def)
  have h2: "findOne (by_kind ''x'') (failing_at 0) = Some stored_widget"
    by (simp add: stored_widget_def sample_defs toObject_def)
  have h3: "write_fault (failing_at 1) (writes (failing_at 1)) = None \<and>
      write_fault (failing_at 1) (Suc (writes (failing_at 1))) = Some ?err"
    by (simp add: failing_at_def stocked_def empty_world_def)
  have e: "\<And>n. collection (failing_at n) = shelf" "\<And>n. history (failing_at n) = []"
    by (simp_all add: failing_at_def stocked_def empty_world_def)
  from C8_fail_closed [of "failing_at 0" ?err "''Widget''" widget_renamed 7 "by_kind ''x''"] h1
  have a: "fst (save ''Widget'' widget_renamed (failing_at 0)) = Inl ?err"
    "collection (snd (save ''Widget'' widget_renamed (failing_at 0))) = shelf"
    "fst (deleteOne ''Widget'' widget_renamed (failing_at 0)) = Inl ?err"
    "collection (snd (deleteOne ''Widget'' widget_renamed (failing_at 0))) = shelf"
    "fst (softDelete ''Widget'' 7 widget_renamed (failing_at 0)) = Inl ?err"
    "collection (snd (softDelete ''Widget'' 7 widget_renamed (failing_at 0))) = shelf"
    "fst (restore ''Widget'' widget_renamed (failing_at 0)) = Inl ?err"
    "collection (snd (restore ''Widget'' widget_renamed (failing_at 0))) = shelf"
    by (simp_all add: e)
  from C8_fail_closed [of "failing_at 0" ?err "''Widget''" stored_widget 7 "by_kind ''x''"] h1 h2
  have b: "fst (findOneAndDelete ''Widget'' (by_kind ''x'') (failing_at 0)) = Inl ?err"
    "collection (snd (findOneAndDelete ''Widget'' (by_kind ''x'') (failing_at 0))) = shelf"
    "history (snd (findOneAndDelete ''Widget'' (by_kind ''x'') (failing_at 0))) = []"
    "fst (findOneAndUpdate ''Widget'' (by_kind ''x'') (failing_at 0)) = Inl ?err"
    "collection (snd (findOneAndUpdate ''Widget'' (by_kind ''x'') (failing_at 0))) = shelf"
    by (simp_all add: e)
  from C8_fail_closed [of "failing_at 1" ?err "''Widget''" stored_widget 7 "by_kind ''x''"] h3
  have c: "fst (restore ''Widget'' stored_widget (failing_at 1)) = Inl ?err"
    "collection (snd (restore ''Widget'' stored_widget (failing_at 1))) =
     collection (snd (save ''Widget'' (set_path stored_widget ''deletedAt'' JNull) (failing_at 1)))"
    by simp_all
  from h1 h2 h3 a b c show ?thesis by simp
qed

text \<open>
  C8, as it is stated, fails for a soft delete whose second audit write fails: the error
  reaches the caller, and the stored entity has the tombstone field set.
\<close>

theorem C8_second_write_counterexample:
  "fst (softDelete ''Widget'' 7 stored_widget (failing_at 1)) =
     Inl (StorageError ''history store down'') \<and>
   collection (failing_at 1) = shelf \<and>
   collection (snd (softDelete ''Widget'' 7 stored_widget (failing_at 1))) =
     [(1, [(''name'', JStr ''a''), (''kind'', JStr ''x''), (''deletedAt'', JDate 7)]),
      (2, [(''name'', JStr ''b''), (''kind'', JStr ''y'')]),
      (3, [(''name'', JStr ''c''), (''kind'', JStr ''x'')])] \<and>
   collection (snd (softDelete ''Widget'' 7 stored_widget (failing_at 1))) \<noteq>
     collection (failing_at 1)"
  by (simp add: stored_widget_def sample_defs tombstone_defs run_defs)

section \<open>The actor on entries: lemmas\<close>

lemma stamped_refl: "stamped w w"
  by (simp add: stamped_def)

lemma stamped_trans:
  assumes "stamped w w1" and "stamped w1 w2"
  shows "stamped w w2"
proof -
  from assms(1) obtain n1 where a: "async_storage w1 = async_storage w"
    "history w1 = history w @ n1"
    "\<forall>x\<in>set n1. modifiedBy (snd x) = async_storage w ''currentUserId''"
    unfolding stamped_def by blast
  from assms(2) obtain n2 where b: "async_storage w2 = async_storage w1"
    "history w2 = history w1 @ n2"
    "\<forall>x\<in>set n2. modifiedBy (snd x) = async_storage w1 ''currentUserId''"
    unfolding stamped_def by blast
  have "history w2 = history w @ (n1 @ n2)" using a b by simp
  moreover have "\<forall>x\<in>set (n1 @ n2). modifiedBy (snd x) = async_storage w ''currentUserId''"
    using a b by auto
  ultimately show ?thesis
    unfolding stamped_def using a(1) b(1) by metis
qed

lemma stamped_entry: "stamped w (snd (createHistoryEntry mn d act chg snap w))"
  by (cases "write_fault w (writes w)")
     (simp_all add: stamped_def createHistoryEntry_history entry_def)

lemma stamped_collection: "stamped w (w\<lparr>collection := x\<rparr>)"
  by (simp add: stamped_def)

lemma stamped_with_pre:
  assumes "stamped w (snd (hook w))" and "\<And>w1. stamped w1 (snd (primary w1))"
  shows "stamped w (snd (with_pre hook primary w))"
proof (cases "fst (hook w)")
  case (Inl err)
  then show ?thesis using assms(1) by (simp add: with_pre_cases)
next
  case (Inr u)
  then have "snd (with_pre hook primary w) = snd (primary (snd (hook w)))"
    by (simp add: with_pre_cases)
  then show ?thesis
    using stamped_trans [OF assms(1) assms(2) [of "snd (hook w)"]] by simp
qed

lemma stamped_for_each:
  assumes "\<And>x w. stamped w (snd (body x w))"
  shows "stamped w (snd (for_each body xs w))"
proof (induction xs arbitrary: w)
  case Nil
  show ?case by (simp add: stamped_refl)
next
  case (Cons x xs)
  show ?case
  proof (cases "fst (body x w)")
    case (Inl err)
    then show ?thesis using assms [of w x] by (simp add: case_outcome)
  next
    case (Inr u)
    then have "snd (for_each body (x # xs) w) = snd (for_each body xs (snd (body x w)))"
      by (simp add: case_outcome)
    then show ?thesis
      using stamped_trans [OF assms [of w x] Cons.IH [of "snd (body x w)"]] by simp
  qed
qed

lemma stamped_save: "stamped w (snd (save mn d w))"
  unfolding save_def
  by (rule stamped_with_pre)
     (simp_all add: pre_save_eq stamped_entry primary_save_def stamped_collection)

lemma stamped_softDelete: "stamped w (snd (softDelete mn now d w))"
proof (cases "fst (save mn (set_path d ''deletedAt'' (JDate now)) w)")
  case (Inl err)
  then show ?thesis by (simp add: softDelete_eq stamped_save)
next
  case (Inr d2)
  let ?w1 = "snd (save mn (set_path d ''deletedAt'' (JDate now)) w)"
  let ?w2 = "snd (createHistoryEntry mn d2 SoftDelete [(''deletedAt'', get d2 ''deletedAt'')]
                    (Some (toObject d2)) ?w1)"
  have "snd (softDelete mn now d w) = ?w2"
    using Inr by (simp add: softDelete_eq split: sum.split)
  moreover have "stamped w ?w2"
    by (rule stamped_trans [OF stamped_save stamped_entry])
  ultimately show ?thesis by simp
qed

lemma stamped_restore: "stamped w (snd (restore mn d w))"
proof (cases "fst (save mn (set_path d ''deletedAt'' JNull) w)")
  case (Inl err)
  then show ?thesis by (simp add: restore_eq stamped_save)
next
  case (Inr d2)
  let ?w1 = "snd (save mn (set_path d ''deletedAt'' JNull) w)"
  let ?w2 = "snd (createHistoryEntry mn d2 Restore [(''deletedAt'', JNull)]
                    (Some (toObject d2)) ?w1)"
  have "snd (restore mn d w) = ?w2"
    using Inr by (simp add: restore_eq split: sum.split)
  moreover have "stamped w ?w2"
    by (rule stamped_trans [OF stamped_save stamped_entry])
  ultimately show ?thesis by simp
qed

lemma stamped_deleteOne: "stamped w (snd (deleteOne mn d w))"
  unfolding deleteOne_def
  by (rule stamped_with_pre)
     (simp_all add: pre_deleteOne_def stamped_entry primary_deleteOne_def stamped_collection)

lemma stamped_findOneAndDelete: "stamped w (snd (findOneAndDelete mn q w))"
  unfolding findOneAndDelete_def
  by (rule stamped_with_pre)
     (simp_all add: pre_findOneAndDelete_def stamped_entry stamped_refl
        primary_findOneAndDelete_def stamped_collection split: option.split)

lemma stamped_findOneAndUpdate: "stamped w (snd (findOneAndUpdate mn q w))"
  unfolding findOneAndUpdate_def
  by (rule stamped_with_pre)
     (simp_all add: pre_findOneAndUpdate_def Let_def stamped_entry stamped_refl
        primary_findOneAndUpdate_def stamped_collection split: option.split)

lemma stamped_deleteMany: "stamped w (snd (deleteMany mn q w))"
  unfolding deleteMany_def
  by (rule stamped_with_pre)
     (simp_all add: pre_deleteMany_def stamped_for_each stamped_entry
        primary_deleteMany_def stamped_collection)

lemma stamped_updateMany: "stamped w (snd (updateMany mn q w))"
  unfolding updateMany_def
  by (rule stamped_with_pre)
     (simp_all add: pre_updateMany_def Let_def stamped_for_each stamped_entry
        primary_updateMany_def stamped_collection)

lemma stamped_run: "stamped w (snd (run mn p w))"
  by (cases p)
     (simp_all add: failure_def stamped_save stamped_softDelete stamped_restore stamped_deleteOne
        stamped_findOneAndDelete stamped_findOneAndUpdate stamped_deleteMany stamped_updateMany)

lemma stamped_written:
  assumes "stamped w w'" and "e \<in> set (written w w')"
  shows "modifiedBy e = async_storage w ''currentUserId''"
proof -
  from assms(1) obtain new where "history w' = history w @ new"
    and a: "\<forall>x\<in>set new. modifiedBy (snd x) = async_storage w ''currentUserId''"
    unfolding stamped_def by blast
  then have "written w w' = map snd new" by (simp add: written_def)
  with assms(2) a show ?thesis by auto
qed

lemma obliviousI:
  assumes "\<And>w1 w2. same_store w1 w2 \<Longrightarrow> fst (f w1) = fst (f w2)"
    and "\<And>w1 w2. same_store w1 w2 \<Longrightarrow> same_store (snd (f w1)) (snd (f w2))"
  shows "oblivious f"
  using assms unfolding oblivious_def by blast

lemma obliviousD:
  assumes "oblivious f" and "same_store w1 w2"
  shows "fst (f w1) = fst (f w2)" and "same_store (snd (f w1)) (snd (f w2))"
  using assms unfolding oblivious_def by blast+

lemma same_store_getModel:
  assumes "same_store w1 w2"
  shows "fst (getModel c w1) = fst (getModel c w2)"
    and "same_store (snd (getModel c w1)) (snd (getModel c w2))"
  using assms
  by (cases "models w2 c"; simp add: same_store_def getModel_fresh getModel_cached)+

lemma oblivious_entry: "oblivious (createHistoryEntry mn d act chg snap)"
proof (rule obliviousI)
  fix w1 w2 assume s: "same_store w1 w2"
  then have wr: "writes w1 = writes w2" and wf: "write_fault w1 = write_fault w2"
    and col: "collection w1 = collection w2"
    by (simp_all add: same_store_def)
  show "fst (createHistoryEntry mn d act chg snap w1) = fst (createHistoryEntry mn d act chg snap w2)"
    by (simp add: createHistoryEntry_result wr wf)
  from same_store_getModel(2) [OF s, of "db d"]
  have g: "models (snd (getModel (db d) w1)) = models (snd (getModel (db d) w2))"
    "next_ref (snd (getModel (db d) w1)) = next_ref (snd (getModel (db d) w2))"
    "collection (snd (getModel (db d) w1)) = collection (snd (getModel (db d) w2))"
    by (simp_all add: same_store_def)
  show "same_store (snd (createHistoryEntry mn d act chg snap w1))
          (snd (createHistoryEntry mn d act chg snap w2))"
  proof (cases "write_fault w2 (writes w2)")
    case None
    then have "write_fault w1 (writes w1) = None" by (simp add: wr wf)
    with None show ?thesis
      by (simp add: createHistoryEntry_ok same_store_def g wr wf col)
  next
    case (Some err)
    then have "write_fault w1 (writes w1) = Some err" by (simp add: wr wf)
    with Some show ?thesis
      by (simp add: createHistoryEntry_fault same_store_def g wr wf col)
  qed
qed

lemma oblivious_with_pre:
  assumes "oblivious hook" and "oblivious primary"
  shows "oblivious (with_pre hook primary)"
proof (rule obliviousI)
  fix w1 w2 assume s: "same_store w1 w2"
  note h = obliviousD [OF assms(1) s]
  note p = obliviousD [OF assms(2) h(2)]
  show "fst (with_pre hook primary w1) = fst (with_pre hook primary w2)"
    using h(1) p(1) by (simp add: with_pre_cases split: sum.split)
  show "same_store (snd (with_pre hook primary w1)) (snd (with_pre hook primary w2))"
    using h p(2) by (simp add: with_pre_cases split: sum.split)
qed

lemma oblivious_for_each:
  assumes "\<And>x. oblivious (body x)"
  shows "oblivious (for_each body xs)"
proof (induction xs)
  case Nil
  show ?case by (intro obliviousI) simp_all
next
  case (Cons x xs)
  show ?case
  proof (rule obliviousI)
    fix w1 w2 assume s: "same_store w1 w2"
    note h = obliviousD [OF assms [of x] s]
    note r = obliviousD [OF Cons.IH h(2)]
    show "fst (for_each body (x # xs) w1) = fst (for_each body (x # xs) w2)"
      unfolding for_each_Cons using h(1) r(1) by (simp split: sum.split)
    show "same_store (snd (for_each body (x # xs) w1)) (snd (for_each body (x # xs) w2))"
      unfolding for_each_Cons using h r(2) by (simp split: sum.split)
  qed
qed

lemma same_store_queries:
  assumes "same_store w1 w2"
  shows "find_docs q w1 = find_docs q w2" and "findOne q w1 = findOne q w2"
  using assms by (simp_all add: same_store_def find_docs_def findOne_def)

lemma oblivious_primary_save: "oblivious (primary_save d)"
  by (rule obliviousI) (simp_all add: same_store_def primary_save_def)

lemma oblivious_primary_deleteOne: "oblivious (primary_deleteOne d)"
  by (rule obliviousI) (simp_all add: same_store_def primary_deleteOne_def)

lemma oblivious_primary_findOneAndDelete: "oblivious (primary_findOneAndDelete q)"
  by (rule obliviousI)
     (simp_all add: same_store_def primary_findOneAndDelete_def host_pick_def
        cong: option.case_cong)

lemma oblivious_primary_findOneAndUpdate: "oblivious (primary_findOneAndUpdate q)"
  by (rule obliviousI)
     (simp_all add: same_store_def primary_findOneAndUpdate_def host_pick_def
        cong: option.case_cong)

lemma oblivious_primary_deleteMany: "oblivious (primary_deleteMany q)"
  by (rule obliviousI) (simp_all add: same_store_def primary_deleteMany_def)

lemma oblivious_primary_updateMany: "oblivious (primary_updateMany q)"
  by (rule obliviousI) (simp_all add: same_store_def primary_updateMany_def)

lemma oblivious_save: "oblivious (save mn d)"
proof -
  have "pre_save mn d =
      createHistoryEntry mn d (if isNew d then Create else Update)
        (if isNew d then toObject d
         else fold (\<lambda>path acc. set_key acc path (get d path)) (modifiedPaths d) [])
        (Some (toObject d))"
    by (simp add: fun_eq_iff pre_save_eq)
  then have "oblivious (pre_save mn d)"
    by (simp only: oblivious_entry)
  then show ?thesis
    unfolding save_def by (rule oblivious_with_pre) (rule oblivious_primary_save)
qed

lemma oblivious_deleteOne: "oblivious (deleteOne mn d)"
proof -
  have "pre_deleteOne mn d = createHistoryEntry mn d HardDelete [] (Some (toObject d))"
    by (simp add: fun_eq_iff pre_deleteOne_def)
  then have "oblivious (pre_deleteOne mn d)"
    by (simp only: oblivious_entry)
  then show ?thesis
    unfolding deleteOne_def by (rule oblivious_with_pre) (rule oblivious_primary_deleteOne)
qed

lemma oblivious_pre_findOneAndDelete: "oblivious (pre_findOneAndDelete mn q)"
proof (rule obliviousI)
  fix w1 w2 assume s: "same_store w1 w2"
  show "fst (pre_findOneAndDelete mn q w1) = fst (pre_findOneAndDelete mn q w2)"
    and "same_store (snd (pre_findOneAndDelete mn q w1)) (snd (pre_findOneAndDelete mn q w2))"
    using s same_store_queries(2) [OF s, of q] obliviousD [OF oblivious_entry s]
    by (simp_all add: pre_findOneAndDelete_def split: option.split)
qed

lemma oblivious_pre_findOneAndUpdate: "oblivious (pre_findOneAndUpdate mn q)"
proof (rule obliviousI)
  fix w1 w2 assume s: "same_store w1 w2"
  show "fst (pre_findOneAndUpdate mn q w1) = fst (pre_findOneAndUpdate mn q w2)"
    and "same_store (snd (pre_findOneAndUpdate mn q w1)) (snd (pre_findOneAndUpdate mn q w2))"
    using s same_store_queries(2) [OF s, of q] obliviousD [OF oblivious_entry s]
    by (simp_all add: pre_findOneAndUpdate_def Let_def split: option.split)
qed

lemma oblivious_pre_deleteMany: "oblivious (pre_deleteMany mn q)"
proof (rule obliviousI)
  fix w1 w2 assume s: "same_store w1 w2"
  have o: "oblivious (for_each (\<lambda>doc. createHistoryEntry mn doc HardDelete []
      (Some (toObject doc))) (find_docs q w2))"
    by (rule oblivious_for_each) (rule oblivious_entry)
  show "fst (pre_deleteMany mn q w1) = fst (pre_deleteMany mn q w2)"
    and "same_store (snd (pre_deleteMany mn q w1)) (snd (pre_deleteMany mn q w2))"
    using same_store_queries(1) [OF s, of q] obliviousD [OF o s]
    by (simp_all add: pre_deleteMany_def)
qed

lemma oblivious_pre_updateMany: "oblivious (pre_updateMany mn q)"
proof (rule obliviousI)
  fix w1 w2 assume s: "same_store w1 w2"
  have o: "oblivious (for_each (\<lambda>doc. createHistoryEntry mn doc Update (getUpdate q)
      (Some (spread (toObject doc) (getUpdate q)))) (find_docs q w2))"
    by (rule oblivious_for_each) (rule oblivious_entry)
  show "fst (pre_updateMany mn q w1) = fst (pre_updateMany mn q w2)"
    and "same_store (snd (pre_updateMany mn q w1)) (snd (pre_updateMany mn q w2))"
    using same_store_queries(1) [OF s, of q] obliviousD [OF o s]
    by (simp_all add: pre_updateMany_def Let_def)
qed

lemma oblivious_findOneAndDelete: "oblivious (findOneAndDelete mn q)"
  unfolding findOneAndDelete_def
  by (rule oblivious_with_pre [OF oblivious_pre_findOneAndDelete oblivious_primary_findOneAndDelete])

lemma oblivious_findOneAndUpdate: "oblivious (findOneAndUpdate mn q)"
  unfolding findOneAndUpdate_def
  by (rule oblivious_with_pre [OF oblivious_pre_findOneAndUpdate oblivious_primary_findOneAndUpdate])

lemma oblivious_deleteMany: "oblivious (deleteMany mn q)"
  unfolding deleteMany_def
  by (rule oblivious_with_pre [OF oblivious_pre_deleteMany oblivious_primary_deleteMany])

lemma oblivious_updateMany: "oblivious (updateMany mn q)"
  unfolding updateMany_def
  by (rule oblivious_with_pre [OF oblivious_pre_updateMany oblivious_primary_updateMany])

lemma oblivious_softDelete: "oblivious (softDelete mn now d)"
proof (rule obliviousI)
  fix w1 w2 assume s: "same_store w1 w2"
  note sv = obliviousD [OF oblivious_save s, of mn "set_path d ''deletedAt'' (JDate now)"]
  note en = obliviousD [OF oblivious_entry sv(2)]
  show "fst (softDelete mn now d w1) = fst (softDelete mn now d w2)"
    unfolding softDelete_eq using sv(1) en(1) by (simp split: sum.split)
  show "same_store (snd (softDelete mn now d w1)) (snd (softDelete mn now d w2))"
    unfolding softDelete_eq using sv en by (simp split: sum.split)
qed

lemma oblivious_restore: "oblivious (restore mn d)"
proof (rule obliviousI)
  fix w1 w2 assume s: "same_store w1 w2"
  note sv = obliviousD [OF oblivious_save s, of mn "set_path d ''deletedAt'' JNull"]
  note en = obliviousD [OF oblivious_entry sv(2)]
  show "fst (restore mn d w1) = fst (restore mn d w2)"
    unfolding restore_eq using sv(1) en(1) by (simp split: sum.split)
  show "same_store (snd (restore mn d w1)) (snd (restore mn d w2))"
    unfolding restore_eq using sv en by (simp split: sum.split)
qed

lemma oblivious_failure: "oblivious f \<Longrightarrow> oblivious (\<lambda>w. failure (f w))"
  unfolding oblivious_def failure_def by simp

lemma oblivious_run: "oblivious (run mn p)"
proof (cases p)
  case (PSave d)
  have "run mn (PSave d) = (\<lambda>w. failure (save mn d w))" by (simp add: fun_eq_iff)
  with PSave show ?thesis by (simp only: oblivious_failure [OF oblivious_save])
next
  case (PSoftDelete now d)
  have "run mn (PSoftDelete now d) = (\<lambda>w. failure (softDelete mn now d w))"
    by (simp add: fun_eq_iff)
  with PSoftDelete show ?thesis by (simp only: oblivious_failure [OF oblivious_softDelete])
next
  case (PRestore d)
  have "run mn (PRestore d) = (\<lambda>w. failure (restore mn d w))" by (simp add: fun_eq_iff)
  with PRestore show ?thesis by (simp only: oblivious_failure [OF oblivious_restore])
next
  case (PDeleteOne d)
  have "run mn (PDeleteOne d) = (\<lambda>w. failure (deleteOne mn d w))" by (simp add: fun_eq_iff)
  with PDeleteOne show ?thesis by (simp only: oblivious_failure [OF oblivious_deleteOne])
next
  case (PFindOneAndDelete q)
  have "run mn (PFindOneAndDelete q) = (\<lambda>w. failure (findOneAndDelete mn q w))"
    by (simp add: fun_eq_iff)
  with PFindOneAndDelete show ?thesis
    by (simp only: oblivious_failure [OF oblivious_findOneAndDelete])
next
  case (PFindOneAndUpdate q)
  have "run mn (PFindOneAndUpdate q) = (\<lambda>w. failure (findOneAndUpdate mn q w))"
    by (simp add: fun_eq_iff)
  with PFindOneAndUpdate show ?thesis
    by (simp only: oblivious_failure [OF oblivious_findOneAndUpdate])
next
  case (PDeleteMany q)
  have "run mn (PDeleteMany q) = (\<lambda>w. failure (deleteMany mn q w))" by (simp add: fun_eq_iff)
  with PDeleteMany show ?thesis by (simp only: oblivious_failure [OF oblivious_deleteMany])
next
  case (PUpdateMany q)
  have "run mn (PUpdateMany q) = (\<lambda>w. failure (updateMany mn q w))" by (simp add: fun_eq_iff)
  with PUpdateMany show ?thesis by (simp only: oblivious_failure [OF oblivious_updateMany])
qed

lemma same_store_actor: "same_store (w\<lparr>async_storage := s\<rparr>) w"
  by (simp add: same_store_def)


section \<open>The actor on entries: the claim\<close>

text \<open>
  C9. Whatever the pathway, every entry it adds to the history has as its \<open>modifiedBy\<close>
  what the actor context holds under \<open>currentUserId\<close>: the bound value, or nothing when
  none is bound; the entries that were there stay. Whether a pathway ends with an error
  does not depend on the actor context, and writing an entry fails only when the history
  store rejects the write: an unbound actor raises nothing.
\<close>

theorem C9_actor_on_entries:
  "(e \<in> set (written w (snd (run mn p w))) \<longrightarrow>
      modifiedBy e = async_storage w ''currentUserId'') \<and>
   take (length (history w)) (history (snd (run mn p w))) = history w \<and>
   fst (run mn p (w\<lparr>async_storage := s\<rparr>)) = fst (run mn p w) \<and>
   fst (createHistoryEntry mn d act chg snap w) =
     (case write_fault w (writes w) of Some err \<Rightarrow> Inl err | None \<Rightarrow> Inr ())"
proof (intro conjI impI)
  assume "e \<in> set (written w (snd (run mn p w)))"
  then show "modifiedBy e = async_storage w ''currentUserId''"
    by (rule stamped_written [OF stamped_run])
next
  show "take (length (history w)) (history (snd (run mn p w))) = history w"
    using stamped_run [of w mn p] unfolding stamped_def by auto
next
  show "fst (run mn p (w\<lparr>async_storage := s\<rparr>)) = fst (run mn p w)"
    by (rule obliviousD(1) [OF oblivious_run same_store_actor])
next
  show "fst (createHistoryEntry mn d act chg snap w) =
     (case write_fault w (writes w) of Some err \<Rightarrow> Inl err | None \<Rightarrow> Inr ())"
    by (rule createHistoryEntry_result)
qed

theorem C9_actor_on_entries_witness:
  "hardDelete_entry ''Widget'' (acting 42) stored_widget \<in>
     set (written (acting 42) (snd (run ''Widget'' (PDeleteMany (by_kind ''x'')) (acting 42)))) \<and>
   modifiedBy (hardDelete_entry ''Widget'' (acting 42) stored_widget) = Some 42 \<and>
   hardDelete_entry ''Widget'' stocked stored_widget \<in>
     set (written stocked (snd (run ''Widget'' (PDeleteMany (by_kind ''x'')) stocked))) \<and>
   modifiedBy (hardDelete_entry ''Widget'' stocked stored_widget) = None \<and>
   fst (run ''Widget'' (PDeleteMany (by_kind ''x'')) stocked) = None \<and>
   fst (run ''Widget'' (PDeleteMany (by_kind ''x'')) (acting 42)) = None"
proof -
  let ?q = "by_kind ''x''"
  have f: "find_docs ?q stocked = [stored_widget, hydrate 0 (shelf ! 2)]"
    "find_docs ?q (acting 42) = [stored_widget, hydrate 0 (shelf ! 2)]"
    by (simp_all add: find_docs_def by_kind_def acting_def stocked_def empty_world_def shelf_def
          matches_def toObject_def hydrate_def stored_widget_def)
  have ok: "writes_ok stocked (length (find_docs ?q stocked))"
    "writes_ok (acting 42) (length (find_docs ?q (acting 42)))"
    by (simp_all add: writes_ok_def acting_def stocked_def empty_world_def)
  have in1: "hardDelete_entry ''Widget'' (acting 42) stored_widget \<in>
     set (written (acting 42) (snd (run ''Widget'' (PDeleteMany ?q) (acting 42))))"
    using deleteMany_ok [OF ok(2), of "''Widget''"]
    by (simp add: written_def failure_def f)
  have in2: "hardDelete_entry ''Widget'' stocked stored_widget \<in>
     set (written stocked (snd (run ''Widget'' (PDeleteMany ?q) stocked)))"
    using deleteMany_ok [OF ok(1), of "''Widget''"]
    by (simp add: written_def failure_def f)
  have r: "fst (run ''Widget'' (PDeleteMany ?q) stocked) = None"
    using deleteMany_ok [OF ok(1), of "''Widget''"] by (simp add: failure_def)
  have a: "async_storage (acting 42) ''currentUserId'' = Some 42"
    "async_storage stocked ''currentUserId'' = None"
    "stocked\<lparr>async_storage := async_storage (acting 42)\<rparr> = acting 42"
    by (simp_all add: acting_def stocked_def empty_world_def)
  from C9_actor_on_entries [of "hardDelete_entry ''Widget'' (acting 42) stored_widget" "acting 42"
      "''Widget''" "PDeleteMany ?q"] in1 a(1)
  have m1: "modifiedBy (hardDelete_entry ''Widget'' (acting 42) stored_widget) = Some 42"
    by simp
  from C9_actor_on_entries [of "hardDelete_entry ''Widget'' stocked stored_widget" stocked
      "''Widget''" "PDeleteMany ?q" "async_storage (acting 42)"] in2 a(2)
  have m2: "modifiedBy (hardDelete_entry ''Widget'' stocked stored_widget) = None"
    and r2: "fst (run ''Widget'' (PDeleteMany ?q) (stocked\<lparr>async_storage := async_storage (acting 42)\<rparr>)) =
      fst (run ''Widget'' (PDeleteMany ?q) stocked)"
    by simp_all
  from r2 r have "fst (run ''Widget'' (PDeleteMany ?q) (acting 42)) = None"
    unfolding a(3) by simp
  with in1 in2 m1 m2 r show ?thesis by blast
qed

end
